theory Spec2Isabelle
  imports Main "HOL-Library.Multiset"
begin

section \<open>Data model\<close>

text \<open>
  The values that travel through the builder, the output performer and the resources.
  Go's \<open>map[string]string\<close> and \<open>map[string]interface{}\<close> payloads (source, params,
  version) are only passed along by the code under study, never inspected, so they are
  kept as association lists.
\<close>

type_synonym Source = "(string \<times> string) list"
type_synonym Params = "(string \<times> string) list"
type_synonym Version = "(string \<times> string) list"
type_synonym MetadataField = "string \<times> string"

text \<open>
  Go errors. \<open>ErrAborted\<close> is the sentinel \<open>errors.New("build aborted")\<close> of the builder
  package, compared by identity; every other error value is an \<open>ErrorString\<close> carrying its
  message.
\<close>

datatype error = ErrAborted | ErrorString string

datatype OutputCondition = OutputConditionSuccess | OutputConditionFailure

text \<open>
  Modelled from the spec: the declarations of \<open>builds.Input\<close>, \<open>builds.Output\<close>,
  \<open>builds.Config\<close> and \<open>builds.Build\<close> used by \<open>builder.go\<close> and by the resource
  package are not among the sources. The fields are those the code reads and writes
  (\<open>Name\<close>, \<open>Type\<close>, \<open>Source\<close>, \<open>Params\<close>, \<open>SourcePath\<close>, \<open>Version\<close>, \<open>Metadata\<close>) together
  with the condition set \<open>On\<close> of the spec's data model. The fields of an input carry the
  prefix \<open>in_\<close>, those of the config the prefix \<open>Config\<close> where they would clash.
\<close>

record Input =
  in_Name :: string
  in_Type :: string
  in_Source :: Source
  in_Params :: Params
  in_Version :: Version
  in_Metadata :: "MetadataField list"

record Output =
  Name :: string
  Type :: string
  On :: "OutputCondition list"
  Params :: Params
  SourcePath :: string
  Source :: Source
  Version :: Version
  Metadata :: "MetadataField list"

text \<open>The zero value \<open>builds.Output{}\<close>.\<close>

definition zero_Output :: Output where
  "zero_Output = \<lparr>Name = [], Type = [], On = [], Params = [], SourcePath = [],
     Source = [], Version = [], Metadata = []\<rparr>"

text \<open>A tar stream is identified by its content.\<close>

type_synonym stream = string

section \<open>Resource: \<open>Out\<close>\<close>









section \<open>Builds, events and the collaborators of the builder\<close>

record RunConfig =
  Path :: string
  Args :: "string list"

record Config =
  ConfigImage :: string
  ConfigParams :: "(string \<times> string) list"
  Run :: RunConfig
  Paths :: "string \<rightharpoonup> string"

record Build =
  Guid :: string
  Config :: Config
  Inputs :: "Input list"
  Outputs :: "Output list"
  Privileged :: bool
  EventsCallback :: string

datatype OriginType = OriginTypeInput | OriginTypeOutput | OriginTypeRun

record Origin =
  origin_Type :: OriginType
  origin_Name :: string

text \<open>
  Modelled from the spec: the event kinds of the \<open>event\<close> package, whose declarations are
  not among the sources. \<open>Log\<close> and \<open>Status\<close> are the kinds \<open>message.go\<close> decodes,
  \<open>Initialize\<close> and \<open>Start\<close> are emitted by \<open>builder.go\<close>, \<open>Error\<close> and \<open>Output\<close> by the
  output performer; \<open>Finish\<close> and \<open>Input\<close> complete the spec's list. The payload of
  \<open>Status\<close> is kept as a string. The constructor of a kind carries the suffix \<open>Event\<close>.
\<close>

datatype Event =
    InitializeEvent Config
  | StartEvent int
  | FinishEvent int int
  | ErrorEvent string
  | LogEvent string Origin
  | InputEvent Input
  | OutputEvent Output
  | StatusEvent string

text \<open>
  Modelled from the spec: the type tags of the event kinds and the method \<open>EventType\<close> of
  each kind, declared in a file of the \<open>event\<close> package that is not among the sources.
  \<open>EventTypeLog\<close> and \<open>EventTypeStatus\<close> are the tags \<open>message.go\<close> names; every kind
  answers with a tag of its own. The numeric values of the tags are not needed.
\<close>

datatype EventType =
    EventTypeInvalid
  | EventTypeLog
  | EventTypeStatus
  | EventTypeInitialize
  | EventTypeStart
  | EventTypeFinish
  | EventTypeError
  | EventTypeInput
  | EventTypeOutput

fun EventType_of :: "Event \<Rightarrow> EventType" where
  "EventType_of (InitializeEvent c) = EventTypeInitialize"
| "EventType_of (StartEvent t) = EventTypeStart"
| "EventType_of (FinishEvent t s) = EventTypeFinish"
| "EventType_of (ErrorEvent m) = EventTypeError"
| "EventType_of (LogEvent p og) = EventTypeLog"
| "EventType_of (InputEvent i) = EventTypeInput"
| "EventType_of (OutputEvent ou) = EventTypeOutput"
| "EventType_of (StatusEvent s) = EventTypeStatus"

text \<open>Arguments of \<open>fmt.Sprintf\<close> and \<open>fmt.Errorf\<close>.\<close>

datatype fmt_arg = ArgInt int | ArgString string | ArgError error | ArgEventType EventType

type_synonym container = string
type_synonym resource = nat
type_synonym process = nat
type_synonym emitter = string

record ContainerSpec =
  RootFSPath :: string

record ProcessSpec =
  spec_Path :: string
  spec_Args :: "string list"
  spec_Env :: "string list"
  spec_Dir :: string
  spec_Privileged :: bool

text \<open>
  Everything the builder and the performer do to the outside, in the order they do it.
  A log writer handed to the tracker is identified by its origin.
\<close>

datatype effect =
    EmitterEmitEvent Event
  | EmitterClose
  | TrackerInit string Origin
  | TrackerRelease resource
  | ResourceIn resource Input
  | ResourceOut resource stream Output
  | ClientCreate ContainerSpec
  | ClientLookup string
  | ContainerStreamIn container string stream
  | ContainerStreamOut container string
  | ContainerRun container ProcessSpec
  | ContainerAttach container nat
  | ContainerStop container bool

text \<open>
  The collaborators: the emitter factory, the resource tracker and its resources, the
  container runtime client and its containers, \<open>Config.Merge\<close> (not among the sources),
  the clock and \<open>fmt.Sprintf\<close>. Calls made once per input or per output take the index of
  that input or output first: the collaborators are effectful, and two calls with equal
  arguments need not be answered alike.
\<close>

record collaborators =
  createEmitter :: "string \<Rightarrow> emitter"
  tracker_Init :: "nat \<Rightarrow> string \<Rightarrow> Origin \<Rightarrow> error + resource"
  resource_In :: "nat \<Rightarrow> resource \<Rightarrow> Input \<Rightarrow> error + (stream \<times> Input \<times> Config)"
  resource_Out :: "nat \<Rightarrow> resource \<Rightarrow> stream \<Rightarrow> Output \<Rightarrow> Output \<times> error option"
  Config_Merge :: "Config \<Rightarrow> Config \<Rightarrow> Config"
  client_Create :: "ContainerSpec \<Rightarrow> error + container"
  client_Lookup :: "string \<Rightarrow> error + container"
  container_StreamIn :: "container \<Rightarrow> string \<Rightarrow> stream \<Rightarrow> error option"
  container_StreamOut :: "nat \<Rightarrow> container \<Rightarrow> string \<Rightarrow> error + stream"
  container_Run :: "container \<Rightarrow> ProcessSpec \<Rightarrow> error + process"
  container_Attach :: "container \<Rightarrow> nat \<Rightarrow> error + process"
  time_Now :: int
  fmt_Sprintf :: "string \<Rightarrow> fmt_arg list \<Rightarrow> string"

section \<open>Output performer: \<open>parallelPerformer.PerformOutputs\<close>\<close>

text \<open>
  The state shared by the goroutines of one call: the slice \<open>resultingOutputs\<close>, the channel
  \<open>errResults\<close> (its content, oldest message first; its capacity is the number of outputs,
  so no send blocks), and the effects so far.
\<close>

record performer_state =
  resultingOutputs :: "Output list"
  errResults :: "error option list"
  effects :: "effect list"

text \<open>
  The body of the goroutine launched for the \<open>i\<close>-th output, path by path: the effects
  it has, the one message it sends on \<open>errResults\<close>, and the computed output it stores at
  index \<open>i\<close> of \<open>resultingOutputs\<close> (on success only). The deferred release of the resource
  runs last.
\<close>

definition task_outcome ::
    "collaborators \<Rightarrow> container \<Rightarrow> nat \<Rightarrow> Output \<Rightarrow> effect list \<times> error option \<times> Output option" where
  "task_outcome env c i output =
     (case container_StreamOut env i c ''/tmp/build/src/'' of
        Inl err \<Rightarrow> ([ContainerStreamOut c ''/tmp/build/src/''], Some err, None)
      | Inr streamOut \<Rightarrow>
          (let eventLog = \<lparr>origin_Type = OriginTypeOutput, origin_Name = Name output\<rparr> in
           case tracker_Init env i (Type output) eventLog of
             Inl err \<Rightarrow>
               ([ContainerStreamOut c ''/tmp/build/src/'', TrackerInit (Type output) eventLog],
                Some err, None)
           | Inr resource \<Rightarrow>
               (case resource_Out env i resource streamOut output of
                  (computedOutput, Some err) \<Rightarrow>
                    ([ContainerStreamOut c ''/tmp/build/src/'',
                      TrackerInit (Type output) eventLog,
                      ResourceOut resource streamOut output,
                      EmitterEmitEvent (ErrorEvent (fmt_Sprintf env (Name output @ '' output failed: %s'')
                                          [ArgError err])),
                      TrackerRelease resource],
                     Some err, None)
                | (computedOutput, None) \<Rightarrow>
                    ([ContainerStreamOut c ''/tmp/build/src/'',
                      TrackerInit (Type output) eventLog,
                      ResourceOut resource streamOut output,
                      EmitterEmitEvent (OutputEvent computedOutput),
                      TrackerRelease resource],
                     None, Some computedOutput))))"

definition perform_task ::
    "collaborators \<Rightarrow> container \<Rightarrow> nat \<Rightarrow> Output \<Rightarrow> performer_state \<Rightarrow> performer_state" where
  "perform_task env c i output st =
     (case task_outcome env c i output of
        (effs, err, stored) \<Rightarrow>
          st\<lparr>resultingOutputs :=
               (case stored of None \<Rightarrow> resultingOutputs st
                | Some computedOutput \<Rightarrow> (resultingOutputs st)[i := computedOutput]),
             errResults := errResults st @ [err],
             effects := effects st @ effs\<rparr>)"

text \<open>
  The goroutines run concurrently. Each one touches only its own slot of
  \<open>resultingOutputs\<close> and sends one message, so a run is described by the order in which
  the goroutines complete: \<open>sched\<close> lists the indices of the goroutines that ever complete,
  in completion order. Only the goroutines of the submitted outputs exist.
\<close>

fun run_tasks ::
    "collaborators \<Rightarrow> container \<Rightarrow> Output list \<Rightarrow> nat list \<Rightarrow> performer_state \<Rightarrow> performer_state" where
  "run_tasks env c outputs [] st = st"
| "run_tasks env c outputs (i # sched) st =
     run_tasks env c outputs sched
       (if i < length outputs then perform_task env c i (outputs ! i) st else st)"

text \<open>
  The collecting loop: receive \<open>len(outputs)\<close> messages; every non-nil error overwrites
  \<open>outputErr\<close>. A receive on a channel that never gets another message blocks for ever:
  the result is \<open>None\<close>.
\<close>

fun collect_errResults :: "nat \<Rightarrow> error option list \<Rightarrow> error option \<Rightarrow> error option option" where
  "collect_errResults 0 ch outputErr = Some outputErr"
| "collect_errResults (Suc k) [] outputErr = None"
| "collect_errResults (Suc k) (err # ch) outputErr =
     collect_errResults k ch (case err of None \<Rightarrow> outputErr | Some e \<Rightarrow> Some e)"

text \<open>
  \<open>PerformOutputs\<close> returns the pair of Go, a slice (nil is the empty list) and an error
  (nil is \<open>None\<close>), together with the effects; \<open>None\<close> is a call that never returns.
\<close>

definition PerformOutputs ::
    "collaborators \<Rightarrow> container \<Rightarrow> Output list \<Rightarrow> nat list
       \<Rightarrow> (effect list \<times> Output list \<times> error option) option" where
  "PerformOutputs env c outputs sched =
     (let st = run_tasks env c outputs sched
                 \<lparr>resultingOutputs = replicate (length outputs) zero_Output,
                  errResults = [], effects = []\<rparr>
      in case collect_errResults (length outputs) (errResults st) None of
           None \<Rightarrow> None
         | Some (Some outputErr) \<Rightarrow> Some (effects st, [], Some outputErr)
         | Some None \<Rightarrow> Some (effects st, resultingOutputs st, None))"

text \<open>
  The errors of the failed goroutines, in completion order.
\<close>

definition failures :: "collaborators \<Rightarrow> container \<Rightarrow> Output list \<Rightarrow> nat list \<Rightarrow> error list" where
  "failures env c outputs sched =
     concat (map (\<lambda>i. case fst (snd (task_outcome env c i (outputs ! i))) of
                         None \<Rightarrow> [] | Some err \<Rightarrow> [err])
                 (filter (\<lambda>i. i < length outputs) sched))"

text \<open>
  Two outputs whose \<open>out\<close> scripts both fail, the first with \<open>first disaster\<close>, the second
  with \<open>second disaster\<close>; and a performer whose resources all succeed.
\<close>

definition output_named :: "string \<Rightarrow> Output" where
  "output_named n = zero_Output\<lparr>Name := n, Type := ''some-type''\<rparr>"

definition failing_env :: collaborators where
  "failing_env =
     \<lparr>createEmitter = (\<lambda>url. url),
      tracker_Init = (\<lambda>i _ _. Inr i),
      resource_In = (\<lambda>_ _ input. Inr (''tar of '' @ in_Name input, input, \<lparr>ConfigImage = [], ConfigParams = [],
                        Run = \<lparr>Path = [], Args = []\<rparr>, Paths = Map.empty\<rparr>)),
      resource_Out = (\<lambda>i _ _ _. (zero_Output,
                        Some (ErrorString (if i = 0 then ''first disaster'' else ''second disaster'')))),
      Config_Merge = (\<lambda>a b. a),
      client_Create = (\<lambda>_. Inr ''some-handle''),
      client_Lookup = (\<lambda>h. Inr h),
      container_StreamIn = (\<lambda>_ _ _. None),
      container_StreamOut = (\<lambda>_ _ _. Inr ''tar''),
      container_Run = (\<lambda>_ _. Inr 42),
      container_Attach = (\<lambda>_ pid. Inr pid),
      time_Now = 0,
      fmt_Sprintf = (\<lambda>f _. f)\<rparr>"

definition working_env :: collaborators where
  "working_env =
     failing_env\<lparr>resource_Out :=
       (\<lambda>i _ _ output. (output\<lparr>Version := [(''performed'', Name output)]\<rparr>, None))\<rparr>"

section \<open>Builder: \<open>Start\<close>\<close>

text \<open>
  The values handed from phase to phase. A live handle (container, process, emitter) is an
  interface value in Go and may be nil: \<open>None\<close>. A container is identified by its handle,
  a process by its ID, an emitter by the URL it was created for.
\<close>

record RunningBuild =
  running_Build :: Build
  running_ContainerHandle :: string
  running_Container :: "container option"
  running_ProcessID :: nat
  running_Process :: "process option"
  running_Emitter :: "emitter option"

record SucceededBuild =
  succeeded_Build :: Build
  succeeded_ContainerHandle :: string
  succeeded_Container :: "container option"
  succeeded_Emitter :: "emitter option"

text \<open>The zero values \<open>builds.Build{}\<close>, \<open>RunningBuild{}\<close> and \<open>SucceededBuild{}\<close>.\<close>

definition zero_Build :: Build where
  "zero_Build =
     \<lparr>Guid = [],
      Config = \<lparr>ConfigImage = [], ConfigParams = [], Run = \<lparr>Path = [], Args = []\<rparr>,
                Paths = Map.empty\<rparr>,
      Inputs = [], Outputs = [], Privileged = False, EventsCallback = []\<rparr>"


definition zero_SucceededBuild :: SucceededBuild where
  "zero_SucceededBuild =
     \<lparr>succeeded_Build = zero_Build, succeeded_ContainerHandle = [],
      succeeded_Container = None, succeeded_Emitter = None\<rparr>"









section \<open>Builder: \<open>Attach\<close>\<close>

text \<open>
  \<open>waitForRunToEnd\<close> starts a goroutine that waits for the process and then selects on the
  status channel, the error channel and the abort channel. Which case the select takes is
  decided by the process and by the abort signal.
\<close>

datatype select_case = StatusReceived int | ErrReceived error | AbortReceived

definition waitForRunToEnd :: "container \<Rightarrow> select_case \<Rightarrow> effect list \<times> int \<times> error option" where
  "waitForRunToEnd container sel =
     (case sel of
        StatusReceived status \<Rightarrow> ([], status, None)
      | ErrReceived err \<Rightarrow> ([], 0, Some err)
      | AbortReceived \<Rightarrow> ([ContainerStop container False], 0, Some ErrAborted))"

text \<open>
  \<open>Attach\<close> returns the succeeded build, the failure of the build (its second result) and
  the error of the attempt (its third result).
\<close>

definition Attach ::
    "collaborators \<Rightarrow> RunningBuild \<Rightarrow> select_case
       \<Rightarrow> effect list \<times> SucceededBuild \<times> error option \<times> error option" where
  "Attach env running sel =
     (let emitter = (case running_Emitter running of
                       None \<Rightarrow> createEmitter env (EventsCallback (running_Build running))
                     | Some e \<Rightarrow> e);
          (effs1, looked) = (case running_Container running of
                       None \<Rightarrow> ([ClientLookup (running_ContainerHandle running)],
                                 client_Lookup env (running_ContainerHandle running))
                     | Some c \<Rightarrow> ([], Inr c))
      in case looked of
           Inl err \<Rightarrow> (effs1 @ [EmitterClose], zero_SucceededBuild, None, Some err)
         | Inr container \<Rightarrow>
             (let (effs2, attached) = (case running_Process running of
                       None \<Rightarrow> ([ContainerAttach container (running_ProcessID running)],
                                 container_Attach env container (running_ProcessID running))
                     | Some p \<Rightarrow> ([], Inr p))
              in case attached of
                   Inl err \<Rightarrow> (effs1 @ effs2 @ [EmitterClose], zero_SucceededBuild, None, Some err)
                 | Inr process \<Rightarrow>
                     (case waitForRunToEnd container sel of
                        (effs3, status, Some err) \<Rightarrow>
                          (effs1 @ effs2 @ effs3 @ [EmitterClose], zero_SucceededBuild, None,
                           Some err)
                      | (effs3, status, None) \<Rightarrow>
                          if status \<noteq> 0
                          then (effs1 @ effs2 @ effs3, zero_SucceededBuild,
                                Some (ErrorString (fmt_Sprintf env ''exit status %d''
                                                     [ArgInt status])),
                                None)
                          else (effs1 @ effs2 @ effs3,
                                \<lparr>succeeded_Build = running_Build running,
                                 succeeded_ContainerHandle = [],
                                 succeeded_Container = Some container,
                                 succeeded_Emitter = Some emitter\<rparr>,
                                None, None))))"

text \<open>
  Whether \<open>Attach\<close> gets as far as waiting for the process: the container is cached or found,
  and the process is cached or attached to.
\<close>

definition attach_waits :: "collaborators \<Rightarrow> RunningBuild \<Rightarrow> container option" where
  "attach_waits env running =
     (case (case running_Container running of
              None \<Rightarrow> client_Lookup env (running_ContainerHandle running)
            | Some c \<Rightarrow> Inr c) of
        Inl err \<Rightarrow> None
      | Inr container \<Rightarrow>
          (case (case running_Process running of
                   None \<Rightarrow> container_Attach env container (running_ProcessID running)
                 | Some p \<Rightarrow> Inr p) of
             Inl err \<Rightarrow> None
           | Inr process \<Rightarrow> Some container))"

text \<open>
  A build with two inputs and no outputs, and the running build \<open>Start\<close> hands over for it
  when every collaborator succeeds.
\<close>

definition input_named :: "string \<Rightarrow> Input" where
  "input_named n =
     \<lparr>in_Name = n, in_Type = ''raw'', in_Source = [(''uri'', n)], in_Params = [],
      in_Version = [(''ref'', n)], in_Metadata = []\<rparr>"

definition example_build :: Build where
  "example_build =
     zero_Build\<lparr>Guid := ''some-build-guid'',
                Config := (Config zero_Build)
                  \<lparr>ConfigImage := ''some-rootfs'',
                   Paths := [''first-resource'' \<mapsto> ''src/first'']\<rparr>,
                Inputs := [input_named ''first-resource'', input_named ''second-resource'']\<rparr>"

definition example_running :: RunningBuild where
  "example_running =
     \<lparr>running_Build = example_build, running_ContainerHandle = ''some-handle'',
      running_Container = Some ''some-handle'', running_ProcessID = 42,
      running_Process = Some 42, running_Emitter = Some ''some-events-callback''\<rparr>"

section \<open>Builder: \<open>Complete\<close> and \<open>performOutputs\<close>\<close>

text \<open>
  A call returns, or blocks for ever on a channel, or panics (a method called on a nil
  interface value).
\<close>

datatype 'a outcome = Returns 'a | Blocks | Panics

text \<open>The implicit output of an input; its params and conditions are left empty.\<close>

definition implicit_output :: "Input \<Rightarrow> Output" where
  "implicit_output input =
     \<lparr>Name = in_Name input, Type = in_Type input, On = [], Params = [], SourcePath = [],
      Source = in_Source input, Version = in_Version input, Metadata = in_Metadata input\<rparr>"

fun implicit_outputs :: "Input list \<Rightarrow> (string \<rightharpoonup> Output) \<Rightarrow> (string \<rightharpoonup> Output)" where
  "implicit_outputs [] allOutputs = allOutputs"
| "implicit_outputs (input # inputs) allOutputs =
     implicit_outputs inputs (allOutputs(in_Name input \<mapsto> implicit_output input))"

text \<open>
  The first step of the goroutine of an output: an implicit output of the same name hands
  its version to the output.
\<close>

definition with_input_version :: "(string \<rightharpoonup> Output) \<Rightarrow> Output \<Rightarrow> Output" where
  "with_input_version allOutputs output =
     (case allOutputs (Name output) of
        Some inputOutput \<Rightarrow> output\<lparr>Version := Version inputOutput\<rparr>
      | None \<Rightarrow> output)"

text \<open>
  The goroutine launched for the \<open>i\<close>-th output, path by path: its effects, the message it
  sends on \<open>errs\<close>, and the message it sends on \<open>results\<close>, if it gets that far. No
  condition of the output is consulted.
\<close>

definition output_task ::
    "collaborators \<Rightarrow> container \<Rightarrow> (string \<rightharpoonup> Output) \<Rightarrow> nat \<Rightarrow> Output
       \<Rightarrow> effect list \<times> error option \<times> Output option" where
  "output_task env c allOutputs i output0 =
     (let output = with_input_version allOutputs output0 in
      case container_StreamOut env i c ''/tmp/build/src/'' of
        Inl err \<Rightarrow> ([ContainerStreamOut c ''/tmp/build/src/''], Some err, None)
      | Inr streamOut \<Rightarrow>
          (let eventLog = \<lparr>origin_Type = OriginTypeOutput, origin_Name = Name output\<rparr> in
           case tracker_Init env i (Type output) eventLog of
             Inl err \<Rightarrow>
               ([ContainerStreamOut c ''/tmp/build/src/'', TrackerInit (Type output) eventLog],
                Some err, None)
           | Inr resource \<Rightarrow>
               (case resource_Out env i resource streamOut output of
                  (computedOutput, err) \<Rightarrow>
                    ([ContainerStreamOut c ''/tmp/build/src/'',
                      TrackerInit (Type output) eventLog,
                      ResourceOut resource streamOut output,
                      TrackerRelease resource],
                     err, Some computedOutput))))"

text \<open>
  The goroutines run concurrently and share nothing but the two channels, whose capacity
  is the number of outputs. \<open>sched\<close> lists the goroutines in the order in which their
  messages arrive on \<open>errs\<close>, \<open>res_sched\<close> in the order in which their messages arrive on
  \<open>results\<close>.
\<close>

definition errs_channel ::
    "collaborators \<Rightarrow> container \<Rightarrow> (string \<rightharpoonup> Output) \<Rightarrow> Output list \<Rightarrow> nat list
       \<Rightarrow> error option list" where
  "errs_channel env c allOutputs outputs sched =
     map (\<lambda>i. fst (snd (output_task env c allOutputs i (outputs ! i))))
         (filter (\<lambda>i. i < length outputs) sched)"

definition results_channel ::
    "collaborators \<Rightarrow> container \<Rightarrow> (string \<rightharpoonup> Output) \<Rightarrow> Output list \<Rightarrow> nat list
       \<Rightarrow> Output list" where
  "results_channel env c allOutputs outputs res_sched =
     concat (map (\<lambda>i. case snd (snd (output_task env c allOutputs i (outputs ! i))) of
                         None \<Rightarrow> [] | Some computedOutput \<Rightarrow> [computedOutput])
                 (filter (\<lambda>i. i < length outputs) res_sched))"

definition task_effects ::
    "collaborators \<Rightarrow> container \<Rightarrow> (string \<rightharpoonup> Output) \<Rightarrow> Output list \<Rightarrow> nat list
       \<Rightarrow> effect list" where
  "task_effects env c allOutputs outputs sched =
     concat (map (\<lambda>i. fst (output_task env c allOutputs i (outputs ! i)))
                 (filter (\<lambda>i. i < length outputs) sched))"

text \<open>
  The second loop: receive \<open>len(build.Outputs)\<close> results and store each under its name.
\<close>

fun receive_results ::
    "nat \<Rightarrow> Output list \<Rightarrow> (string \<rightharpoonup> Output) \<Rightarrow> (string \<rightharpoonup> Output) option" where
  "receive_results 0 ch allOutputs = Some allOutputs"
| "receive_results (Suc k) [] allOutputs = None"
| "receive_results (Suc k) (output # ch) allOutputs =
     receive_results k ch (allOutputs(Name output \<mapsto> output))"

text \<open>
  The last loop ranges over the map and appends its values; \<open>keys\<close> is the order in which
  Go enumerates the keys, as in \<open>streamInResources\<close>.
\<close>

definition range_values :: "(string \<rightharpoonup> Output) \<Rightarrow> string list \<Rightarrow> Output list" where
  "range_values allOutputs keys =
     concat (map (\<lambda>name. case allOutputs name of None \<Rightarrow> [] | Some output \<Rightarrow> [output]) keys)"

definition performOutputs ::
    "collaborators \<Rightarrow> container option \<Rightarrow> Build \<Rightarrow> nat list \<Rightarrow> nat list \<Rightarrow> string list
       \<Rightarrow> (effect list \<times> Output list \<times> error option) outcome" where
  "performOutputs env container build sched res_sched keys =
     (let allOutputs = implicit_outputs (Inputs build) Map.empty in
      if length (Outputs build) > 0
      then (case container of
              None \<Rightarrow> Panics
            | Some c \<Rightarrow>
                (case collect_errResults (length (Outputs build))
                        (errs_channel env c allOutputs (Outputs build) sched) None of
                   None \<Rightarrow> Blocks
                 | Some (Some outputErr) \<Rightarrow>
                     Returns (task_effects env c allOutputs (Outputs build) sched, [],
                              Some outputErr)
                 | Some None \<Rightarrow>
                     (case receive_results (length (Outputs build))
                             (results_channel env c allOutputs (Outputs build) res_sched)
                             allOutputs of
                        None \<Rightarrow> Blocks
                      | Some allOutputs' \<Rightarrow>
                          Returns (task_effects env c allOutputs (Outputs build) sched,
                                   range_values allOutputs' keys, None))))
      else Returns ([], range_values allOutputs keys, None))"

text \<open>
  \<open>Complete\<close>. The emitter is closed by a deferred call. On an error of \<open>performOutputs\<close> the
  zero build is returned with it.
\<close>

definition Complete ::
    "collaborators \<Rightarrow> SucceededBuild \<Rightarrow> nat list \<Rightarrow> nat list \<Rightarrow> string list
       \<Rightarrow> (effect list \<times> Build \<times> error option) outcome" where
  "Complete env succeeded sched res_sched keys =
     (case performOutputs env (succeeded_Container succeeded) (succeeded_Build succeeded)
             sched res_sched keys of
        Panics \<Rightarrow> Panics
      | Blocks \<Rightarrow> Blocks
      | Returns (effs, outputs, Some err) \<Rightarrow> Returns (effs @ [EmitterClose], zero_Build, Some err)
      | Returns (effs, outputs, None) \<Rightarrow>
          Returns (effs @ [EmitterClose], (succeeded_Build succeeded)\<lparr>Outputs := outputs\<rparr>, None))"

text \<open>
  The performed outputs of a build, in the order of \<open>build.Outputs\<close>: what \<open>resource.Out\<close>
  computes for each output whose goroutine gets as far as calling it.
\<close>

definition performed_outputs :: "collaborators \<Rightarrow> container option \<Rightarrow> Build \<Rightarrow> Output list" where
  "performed_outputs env container build =
     (case container of
        None \<Rightarrow> []
      | Some c \<Rightarrow>
          results_channel env c (implicit_outputs (Inputs build) Map.empty) (Outputs build)
            [0..<length (Outputs build)])"

text \<open>
  Whether the goroutine of the \<open>i\<close>-th output gets as far as calling \<open>resource.Out\<close>: it
  does when \<open>StreamOut\<close> and \<open>tracker.Init\<close> both succeed for it. The outputs of a build for
  which this is so, in the order of \<open>build.Outputs\<close>.
\<close>

definition reaches_Out ::
    "collaborators \<Rightarrow> container \<Rightarrow> (string \<rightharpoonup> Output) \<Rightarrow> nat \<Rightarrow> Output \<Rightarrow> bool" where
  "reaches_Out env c allOutputs i output0 =
     (let output = with_input_version allOutputs output0 in
      case container_StreamOut env i c ''/tmp/build/src/'' of
        Inl err \<Rightarrow> False
      | Inr streamOut \<Rightarrow>
          (case tracker_Init env i (Type output)
                  \<lparr>origin_Type = OriginTypeOutput, origin_Name = Name output\<rparr> of
             Inl err \<Rightarrow> False
           | Inr resource \<Rightarrow> True))"

definition outputs_reaching_Out ::
    "collaborators \<Rightarrow> container option \<Rightarrow> Build \<Rightarrow> Output list" where
  "outputs_reaching_Out env container build =
     (case container of
        None \<Rightarrow> []
      | Some c \<Rightarrow>
          map (\<lambda>i. Outputs build ! i)
              (filter (\<lambda>i. reaches_Out env c (implicit_outputs (Inputs build) Map.empty) i
                              (Outputs build ! i))
                      [0..<length (Outputs build)]))"

text \<open>The outputs handed to \<open>resource.Out\<close>, read off the effects.\<close>

definition outputs_handed :: "effect list \<Rightarrow> Output list" where
  "outputs_handed effs =
     concat (map (\<lambda>e. case e of ResourceOut resource streamOut output \<Rightarrow> [output] | _ \<Rightarrow> []) effs)"

text \<open>What a call returned, if it returned.\<close>

definition returned :: "'a outcome \<Rightarrow> 'a option" where
  "returned r = (case r of Returns x \<Rightarrow> Some x | Blocks \<Rightarrow> None | Panics \<Rightarrow> None)"

text \<open>
  A succeeded build with two inputs and two outputs, one to perform on success and one to
  perform on failure, the latter named like the first input; and a succeeded build whose
  two outputs share a name.
\<close>

definition example_succeeded :: SucceededBuild where
  "example_succeeded =
     \<lparr>succeeded_Build = example_build
        \<lparr>Outputs := [(output_named ''on-success'')\<lparr>On := [OutputConditionSuccess]\<rparr>,
                     (output_named ''first-resource'')\<lparr>On := [OutputConditionFailure]\<rparr>]\<rparr>,
      succeeded_ContainerHandle = [],
      succeeded_Container = Some ''some-handle'',
      succeeded_Emitter = Some ''some-events-callback''\<rparr>"

definition same_name_succeeded :: SucceededBuild where
  "same_name_succeeded =
     \<lparr>succeeded_Build = zero_Build
        \<lparr>Outputs := [output_named ''x'', (output_named ''x'')\<lparr>Type := ''other-type''\<rparr>]\<rparr>,
      succeeded_ContainerHandle = [],
      succeeded_Container = Some ''some-handle'',
      succeeded_Emitter = Some ''some-events-callback''\<rparr>"

text \<open>
  The running builds of these examples: one carrying the build of \<open>example_succeeded\<close>, and
  one whose build has a single output, to perform on failure only.
\<close>

definition example_running_outputs :: RunningBuild where
  "example_running_outputs =
     example_running\<lparr>running_Build := succeeded_Build example_succeeded\<rparr>"

definition failure_only_running :: RunningBuild where
  "failure_only_running =
     example_running\<lparr>running_Build := zero_Build
       \<lparr>Outputs := [(output_named ''on-failure'')\<lparr>On := [OutputConditionFailure]\<rparr>]\<rparr>\<rparr>"

text \<open>
  Collaborators as in \<open>working_env\<close>, except that \<open>StreamOut\<close> fails for the first output.
\<close>

definition no_stream_env :: collaborators where
  "no_stream_env =
     working_env\<lparr>container_StreamOut :=
       (\<lambda>i c path. if i = 0 then Inl (ErrorString ''no stream'') else Inr ''tar'')\<rparr>"

section \<open>Event emitter: \<open>websocketEmitter.EmitEvent\<close>\<close>

text \<open>
  What the emitter does to the network, in order: a dial (and whether it succeeded), a
  \<open>WriteJSON\<close> of the message of an event on a connection (and whether it succeeded), the
  closing of a connection, a pause of so many seconds. A connection is identified by the
  number of the dial that opened it.
\<close>

datatype emitter_action =
    Dial bool
  | WriteJSON nat Event bool
  | ConnClose nat
  | Sleep nat

text \<open>
  The network decides which dials and which writes succeed: \<open>dial_ok k\<close> for the \<open>k\<close>-th
  dial of the emitter, \<open>write_ok k\<close> for its \<open>k\<close>-th write.
\<close>

record network =
  dial_ok :: "nat \<Rightarrow> bool"
  write_ok :: "nat \<Rightarrow> bool"

text \<open>
  The emitter: its current connection (\<open>None\<close> is nil), the dials and writes it has made,
  and its actions so far. The mutex \<open>connL\<close> is not modelled: one caller at a time.
\<close>

record websocketEmitter =
  conn :: "nat option"
  dials :: nat
  writes :: nat
  trace :: "emitter_action list"

text \<open>
  Both retry cycles of the emitter may run for ever. They are given fuel, one unit per iteration;
  \<open>None\<close> is a loop that has not ended when the fuel is used up.

  \<open>connect\<close> returns at once when there is a connection, and otherwise dials until a dial
  succeeds, pausing one second after each failed dial.
\<close>

fun connect :: "network \<Rightarrow> nat \<Rightarrow> websocketEmitter \<Rightarrow> websocketEmitter option" where
  "connect net 0 e = (if conn e \<noteq> None then Some e else None)"
| "connect net (Suc fuel) e =
     (if conn e \<noteq> None then Some e
      else if dial_ok net (dials e)
      then Some (e\<lparr>conn := Some (dials e), dials := Suc (dials e),
                   trace := trace e @ [Dial True]\<rparr>)
      else connect net fuel (e\<lparr>dials := Suc (dials e),
                               trace := trace e @ [Dial False, Sleep 1]\<rparr>))"

text \<open>
  \<open>close\<close> closes the connection, if there is one, and forgets it.
\<close>

definition close :: "websocketEmitter \<Rightarrow> websocketEmitter" where
  "close e =
     (case conn e of
        None \<Rightarrow> e
      | Some c \<Rightarrow> e\<lparr>conn := None, trace := trace e @ [ConnClose c]\<rparr>)"

text \<open>
  \<open>EmitEvent\<close>: connect, write the message; on success leave the loop and return nil, on an
  error close the connection, pause one second and start again. The result is the emitter
  and the error returned. (A write on a nil connection would panic; after \<open>connect\<close> there
  is a connection.)
\<close>

fun EmitEvent ::
    "network \<Rightarrow> nat \<Rightarrow> websocketEmitter \<Rightarrow> Event \<Rightarrow> (websocketEmitter \<times> error option) option" where
  "EmitEvent net 0 e event = None"
| "EmitEvent net (Suc fuel) e event =
     (case connect net fuel e of
        None \<Rightarrow> None
      | Some e1 \<Rightarrow>
          (case conn e1 of
             None \<Rightarrow> None
           | Some c \<Rightarrow>
               if write_ok net (writes e1)
               then Some (e1\<lparr>writes := Suc (writes e1),
                             trace := trace e1 @ [WriteJSON c event True]\<rparr>, None)
               else (let e2 = close (e1\<lparr>writes := Suc (writes e1),
                                         trace := trace e1 @ [WriteJSON c event False]\<rparr>)
                     in EmitEvent net fuel (e2\<lparr>trace := trace e2 @ [Sleep 1]\<rparr>) event)))"

text \<open>
  The shape of the actions of one delivery: every failed dial is followed by a pause of one
  second; every failed write of the event is followed by the closing of the connection it
  was made on and by a pause of one second; the successful write of the event comes last
  and is the only one.
\<close>

fun delivered :: "Event \<Rightarrow> emitter_action list \<Rightarrow> bool" where
  "delivered event [] = False"
| "delivered event (a # rest) =
     (case a of
        Dial ok \<Rightarrow>
          (if ok then delivered event rest
           else (case rest of
                   Sleep d # rest' \<Rightarrow> d = 1 \<and> delivered event rest'
                 | _ \<Rightarrow> False))
      | WriteJSON c written ok \<Rightarrow>
          written = event \<and>
          (if ok then rest = []
           else (case rest of
                   ConnClose c' # Sleep d # rest' \<Rightarrow> c' = c \<and> d = 1 \<and> delivered event rest'
                 | _ \<Rightarrow> False))
      | _ \<Rightarrow> False)"

text \<open>
  A fresh emitter, a network that lets the first write fail and the second succeed (the
  consumer closes the first connection after the upgrade), and a network on which writes
  always fail.
\<close>

definition new_emitter :: websocketEmitter where
  "new_emitter = \<lparr>conn = None, dials = 0, writes = 0, trace = []\<rparr>"

definition flaky_network :: network where
  "flaky_network = \<lparr>dial_ok = (\<lambda>k. True), write_ok = (\<lambda>k. 1 \<le> k)\<rparr>"

definition dead_network :: network where
  "dead_network = \<lparr>dial_ok = (\<lambda>k. True), write_ok = (\<lambda>k. False)\<rparr>"

definition example_log :: Event where
  "example_log = LogEvent ''sup'' \<lparr>origin_Type = OriginTypeInput, origin_Name = ''some-input''\<rparr>"

section \<open>Event envelope: \<open>Message.MarshalJSON\<close> and \<open>Message.UnmarshalJSON\<close>\<close>

text \<open>
  A message wraps an event; the field is an interface value and may be nil. The envelope
  carries the tag of the event and a pointer to its raw JSON payload, nil when the decoded
  JSON has no \<open>event\<close> member.
\<close>

type_synonym RawMessage = string

record Message =
  msg_Event :: "Event option"

record eventEnvelope =
  envelope_Type :: EventType
  EventPayload :: "RawMessage option"

text \<open>
  The library \<open>encoding/json\<close>, as \<open>message.go\<close> uses it: \<open>json.Marshal\<close> of an event and of an
  envelope, \<open>json.Unmarshal\<close> into an envelope, into a \<open>Log\<close> and into a \<open>Status\<close>. Unmarshalling
  fills a value and returns an error or nil.
\<close>

record json =
  Marshal_event :: "Event \<Rightarrow> error + RawMessage"
  Marshal_envelope :: "eventEnvelope \<Rightarrow> error + RawMessage"
  Unmarshal_envelope :: "RawMessage \<Rightarrow> eventEnvelope \<times> error option"
  Unmarshal_Log :: "RawMessage \<Rightarrow> (string \<times> Origin) \<times> error option"
  Unmarshal_Status :: "RawMessage \<Rightarrow> string \<times> error option"

text \<open>
  \<open>MarshalJSON\<close>: marshal the event, put its tag and the payload in an envelope, marshal the
  envelope. The method \<open>EventType\<close> called on a nil event panics.
\<close>

definition MarshalJSON :: "json \<Rightarrow> Message \<Rightarrow> (error + RawMessage) outcome" where
  "MarshalJSON js m =
     (case msg_Event m of
        None \<Rightarrow> Panics
      | Some event \<Rightarrow>
          (case Marshal_event js event of
             Inl err \<Rightarrow> Returns (Inl err)
           | Inr payload \<Rightarrow>
               Returns (Marshal_envelope js
                          \<lparr>envelope_Type = EventType_of event, EventPayload = Some payload\<rparr>)))"

text \<open>
  \<open>UnmarshalJSON\<close>: unmarshal the envelope, then switch on its tag. The cases are
  \<open>EventTypeLog\<close> and \<open>EventTypeStatus\<close>; any other tag is an error, and the message is left
  as it was. The result is the message and the error returned.
\<close>

definition UnmarshalJSON ::
    "json \<Rightarrow> (string \<Rightarrow> fmt_arg list \<Rightarrow> string) \<Rightarrow> Message \<Rightarrow> RawMessage
       \<Rightarrow> (Message \<times> error option) outcome" where
  "UnmarshalJSON js Sprintf m bytes =
     (case Unmarshal_envelope js bytes of
        (envelope, Some err) \<Rightarrow> Returns (m, Some err)
      | (envelope, None) \<Rightarrow>
          (case envelope_Type envelope of
             EventTypeLog \<Rightarrow>
               (case EventPayload envelope of
                  None \<Rightarrow> Panics
                | Some payload \<Rightarrow>
                    (case Unmarshal_Log js payload of
                       ((p, og), err) \<Rightarrow> Returns (m\<lparr>msg_Event := Some (LogEvent p og)\<rparr>, err)))
           | EventTypeStatus \<Rightarrow>
               (case EventPayload envelope of
                  None \<Rightarrow> Panics
                | Some payload \<Rightarrow>
                    (case Unmarshal_Status js payload of
                       (s, err) \<Rightarrow> Returns (m\<lparr>msg_Event := Some (StatusEvent s)\<rparr>, err)))
           | _ \<Rightarrow>
               Returns (m, Some (ErrorString
                          (Sprintf ''unknown event type: %d''
                             [ArgEventType (envelope_Type envelope)])))))"

text \<open>
  A stand-in for the JSON library, enough to run the two methods: the first byte of an
  encoded envelope names the tag, the rest is the payload; a \<open>Start\<close> event is encoded as its
  kind, a \<open>Log\<close> as its payload text.
\<close>

definition toy_json :: json where
  "toy_json =
     \<lparr>Marshal_event = (\<lambda>event. case event of
                          LogEvent p og \<Rightarrow> Inr p
                        | StatusEvent s \<Rightarrow> Inr s
                        | _ \<Rightarrow> Inr ''{}''),
      Marshal_envelope = (\<lambda>envelope.
         Inr ((case envelope_Type envelope of
                 EventTypeLog \<Rightarrow> CHR ''L'' | EventTypeStatus \<Rightarrow> CHR ''S''
               | EventTypeStart \<Rightarrow> CHR ''T'' | _ \<Rightarrow> CHR ''?'')
              # (case EventPayload envelope of None \<Rightarrow> [] | Some payload \<Rightarrow> payload))),
      Unmarshal_envelope = (\<lambda>bytes.
         case bytes of
           [] \<Rightarrow> (\<lparr>envelope_Type = EventTypeInvalid, EventPayload = None\<rparr>,
                  Some (ErrorString ''unexpected end of JSON input''))
         | tag # payload \<Rightarrow>
             (\<lparr>envelope_Type =
                 (if tag = CHR ''L'' then EventTypeLog
                  else if tag = CHR ''S'' then EventTypeStatus
                  else if tag = CHR ''T'' then EventTypeStart
                  else EventTypeInvalid),
               EventPayload = Some payload\<rparr>, None)),
      Unmarshal_Log = (\<lambda>payload.
         ((payload, \<lparr>origin_Type = OriginTypeRun, origin_Name = ''stdout''\<rparr>), None)),
      Unmarshal_Status = (\<lambda>payload. (payload, None))\<rparr>"

section \<open>Properties of \<open>Resource.Out\<close>\<close>




section \<open>Properties of the output performer\<close>


lemma collect_errResults_eq:
  "collect_errResults n ch acc =
     (if n \<le> length ch
      then Some (foldl (\<lambda>a e. case e of None \<Rightarrow> a | Some x \<Rightarrow> Some x) acc (take n ch))
      else None)"
  by (induction n ch acc rule: collect_errResults.induct) auto

lemma foldl_overwrite:
  "foldl (\<lambda>a e. case e of None \<Rightarrow> a | Some x \<Rightarrow> Some x) acc es =
     (if concat (map (\<lambda>e. case e of None \<Rightarrow> [] | Some x \<Rightarrow> [x]) es) = [] then acc
      else Some (last (concat (map (\<lambda>e. case e of None \<Rightarrow> [] | Some x \<Rightarrow> [x]) es))))"
proof (induction es rule: rev_induct)
  case Nil
  then show ?case by simp
next
  case (snoc e es)
  then show ?case by (cases e) auto
qed

lemma run_tasks_errResults:
  "errResults (run_tasks env c outputs sched st) =
     errResults st @ map (\<lambda>i. fst (snd (task_outcome env c i (outputs ! i))))
                         (filter (\<lambda>i. i < length outputs) sched)"
  by (induction sched arbitrary: st) (auto simp: perform_task_def split: prod.splits)

lemma run_tasks_length:
  "length (resultingOutputs (run_tasks env c outputs sched st)) = length (resultingOutputs st)"
  by (induction sched arbitrary: st) (auto simp: perform_task_def split: prod.splits option.splits)

lemma run_tasks_slot:
  "j < length (resultingOutputs st) \<Longrightarrow>
   resultingOutputs (run_tasks env c outputs sched st) ! j =
     (if j \<in> set sched \<and> j < length outputs
      then (case snd (snd (task_outcome env c j (outputs ! j))) of
              None \<Rightarrow> resultingOutputs st ! j | Some computed \<Rightarrow> computed)
      else resultingOutputs st ! j)"
proof (induction sched arbitrary: st)
  case Nil
  then show ?case by simp
next
  case (Cons i sched)
  then show ?case
    by (cases "i = j")
       (auto simp: perform_task_def nth_list_update split: prod.splits option.splits)
qed

lemma failures_eq:
  "failures env c outputs sched =
     concat (map (\<lambda>e. case e of None \<Rightarrow> [] | Some x \<Rightarrow> [x])
       (map (\<lambda>i. fst (snd (task_outcome env c i (outputs ! i))))
            (filter (\<lambda>i. i < length outputs) sched)))"
  by (simp add: failures_def comp_def)

lemma all_completed:
  assumes "distinct sched" and "n \<le> length (filter (\<lambda>i. i < n) sched)"
  shows "{..<n} \<subseteq> set sched" and "length (filter (\<lambda>i. i < n) sched) = n"
proof -
  let ?f = "filter (\<lambda>i. i < n) sched"
  have d: "distinct ?f" using assms(1) by simp
  have sub: "set ?f \<subseteq> {..<n}" by auto
  have "card (set ?f) = length ?f" using d by (rule distinct_card)
  moreover have "card (set ?f) \<le> card {..<n}" using sub by (intro card_mono) auto
  ultimately have len: "length ?f = n" and c: "card (set ?f) = card {..<n}"
    using assms(2) by auto
  have "set ?f = {..<n}" using sub c by (intro card_subset_eq) auto
  then show "{..<n} \<subseteq> set sched" by auto
  show "length ?f = n" by (rule len)
qed

lemma completed_length:
  assumes "distinct sched" and "{..<n} \<subseteq> set sched"
  shows "length (filter (\<lambda>i. i < n) sched) = n"
proof -
  let ?f = "filter (\<lambda>i. i < n) sched"
  have "set ?f = {..<n}" using assms(2) by auto
  moreover have "distinct ?f" using assms(1) by simp
  ultimately show ?thesis using distinct_card [of ?f] by simp
qed


lemma PerformOutputs_char:
  assumes "distinct sched"
  shows "PerformOutputs env c outputs sched =
     (if {..<length outputs} \<subseteq> set sched
      then (let st = run_tasks env c outputs sched
                       \<lparr>resultingOutputs = replicate (length outputs) zero_Output,
                        errResults = [], effects = []\<rparr>
            in if failures env c outputs sched = []
               then Some (effects st, resultingOutputs st, None)
               else Some (effects st, [], Some (last (failures env c outputs sched))))
      else None)"
proof (cases "{..<length outputs} \<subseteq> set sched")
  case True
  have len: "length (filter (\<lambda>i. i < length outputs) sched) = length outputs"
    using assms True by (rule completed_length)
  show ?thesis
    using True len
    by (simp add: PerformOutputs_def Let_def collect_errResults_eq run_tasks_errResults
          foldl_overwrite failures_eq)
next
  case False
  have "\<not> length outputs \<le> length (filter (\<lambda>i. i < length outputs) sched)"
    using all_completed(1) [OF assms] False by blast
  then show ?thesis
    using False
    by (simp add: PerformOutputs_def Let_def collect_errResults_eq run_tasks_errResults)
qed

lemma task_outcome_stored:
  assumes "fst (snd (task_outcome env c i output)) = None"
  shows "\<exists>streamOut resource computed.
           container_StreamOut env i c ''/tmp/build/src/'' = Inr streamOut
         \<and> tracker_Init env i (Type output)
               \<lparr>origin_Type = OriginTypeOutput, origin_Name = Name output\<rparr> = Inr resource
         \<and> resource_Out env i resource streamOut output = (computed, None)
         \<and> snd (snd (task_outcome env c i output)) = Some computed"
  using assms
  by (auto simp: task_outcome_def Let_def split: sum.splits prod.splits option.splits)

lemma failures_empty:
  "failures env c outputs sched = [] \<longleftrightarrow>
     (\<forall>i \<in> set sched. i < length outputs \<longrightarrow>
        fst (snd (task_outcome env c i (outputs ! i))) = None)"
  by (auto simp: failures_def split: option.splits)

text \<open>
  Claim C10. When the performer returns with a nil error (every goroutine completing at
  most once in the schedule), the returned slice is as long as the submitted one, and its
  \<open>i\<close>-th element is the output that \<open>resource.Out\<close> computed for the \<open>i\<close>-th submitted
  output, on the tar stream and the resource obtained by the goroutine of that output:
  positions are those of the submission, whatever the completion order.
\<close>

theorem PerformOutputs_positional:
  assumes "distinct sched"
    and "PerformOutputs env c outputs sched = Some (effs, outs, None)"
  shows "length outs = length outputs
       \<and> (\<forall>i < length outputs. \<exists>streamOut resource.
             container_StreamOut env i c ''/tmp/build/src/'' = Inr streamOut
           \<and> tracker_Init env i (Type (outputs ! i))
                 \<lparr>origin_Type = OriginTypeOutput, origin_Name = Name (outputs ! i)\<rparr>
               = Inr resource
           \<and> resource_Out env i resource streamOut (outputs ! i) = (outs ! i, None))"
proof -
  let ?init = "\<lparr>resultingOutputs = replicate (length outputs) zero_Output,
                 errResults = [], effects = []\<rparr>"
  let ?st = "run_tasks env c outputs sched ?init"
  have all: "{..<length outputs} \<subseteq> set sched"
    and nofail: "failures env c outputs sched = []"
    and outs: "outs = resultingOutputs ?st"
    using assms(2) unfolding PerformOutputs_char [OF assms(1)]
    by (auto simp: Let_def split: if_splits)
  have len: "length outs = length outputs"
    using outs by (simp add: run_tasks_length)
  have slot: "\<exists>streamOut resource.
             container_StreamOut env i c ''/tmp/build/src/'' = Inr streamOut
           \<and> tracker_Init env i (Type (outputs ! i))
                 \<lparr>origin_Type = OriginTypeOutput, origin_Name = Name (outputs ! i)\<rparr>
               = Inr resource
           \<and> resource_Out env i resource streamOut (outputs ! i) = (outs ! i, None)"
    if i: "i < length outputs" for i
  proof -
    have mem: "i \<in> set sched" using all i by auto
    have ok: "fst (snd (task_outcome env c i (outputs ! i))) = None"
      using nofail mem i by (simp add: failures_empty)
    from task_outcome_stored [OF ok] obtain streamOut resource computed where
      t: "container_StreamOut env i c ''/tmp/build/src/'' = Inr streamOut"
         "tracker_Init env i (Type (outputs ! i))
            \<lparr>origin_Type = OriginTypeOutput, origin_Name = Name (outputs ! i)\<rparr> = Inr resource"
         "resource_Out env i resource streamOut (outputs ! i) = (computed, None)"
         "snd (snd (task_outcome env c i (outputs ! i))) = Some computed"
      by blast
    have "outs ! i = computed"
      using outs i mem t(4) by (simp add: run_tasks_slot)
    then show ?thesis using t by blast
  qed
  show ?thesis using len slot by blast
qed

text \<open>
  Claim C4, as the code has it. When at least one goroutine fails, the call returns only
  if every launched goroutine has completed (otherwise the collecting loop blocks), and
  then it returns the nil slice together with the error of the goroutine that failed last
  in completion order: every non-nil error received overwrites \<open>outputErr\<close>, and an abort
  error is treated like any other.
\<close>

theorem PerformOutputs_last_error_wins:
  assumes "distinct sched"
    and "failures env c outputs sched \<noteq> []"
  shows "({..<length outputs} \<subseteq> set sched \<longrightarrow>
            (\<exists>effs. PerformOutputs env c outputs sched =
                      Some (effs, [], Some (last (failures env c outputs sched)))))
       \<and> (\<not> {..<length outputs} \<subseteq> set sched \<longrightarrow>
            PerformOutputs env c outputs sched = None)"
  using assms(2) unfolding PerformOutputs_char [OF assms(1)]
  by (simp add: Let_def)

theorem PerformOutputs_positional_witness:
  "distinct [1::nat, 0]
   \<and> PerformOutputs working_env ''c'' [output_named ''a'', output_named ''b''] [1, 0] \<noteq> None
   \<and> snd (the (PerformOutputs working_env ''c'' [output_named ''a'', output_named ''b''] [1, 0]))
       = ([(output_named ''a'')\<lparr>Version := [(''performed'', ''a'')]\<rparr>,
           (output_named ''b'')\<lparr>Version := [(''performed'', ''b'')]\<rparr>], None)
   \<and> resource_Out working_env 1 1 ''tar'' (output_named ''b'')
       = ((output_named ''b'')\<lparr>Version := [(''performed'', ''b'')]\<rparr>, None)"
proof -
  let ?outputs = "[output_named ''a'', output_named ''b'']"
  have d: "distinct [1::nat, 0]" by simp
  obtain effs outs where
    run: "PerformOutputs working_env ''c'' ?outputs [1, 0] = Some (effs, outs, None)"
    by (simp add: PerformOutputs_def perform_task_def task_outcome_def working_env_def
          failing_env_def output_named_def zero_Output_def)
  from PerformOutputs_positional [OF d run]
  have len: "length outs = 2"
    and el: "\<forall>i<2. \<exists>streamOut resource.
             container_StreamOut working_env i ''c'' ''/tmp/build/src/'' = Inr streamOut
           \<and> tracker_Init working_env i (Type (?outputs ! i))
                 \<lparr>origin_Type = OriginTypeOutput, origin_Name = Name (?outputs ! i)\<rparr>
               = Inr resource
           \<and> resource_Out working_env i resource streamOut (?outputs ! i) = (outs ! i, None)"
    by simp_all
  have "outs ! 0 = (output_named ''a'')\<lparr>Version := [(''performed'', ''a'')]\<rparr>"
    using el [rule_format, of 0]
    by (auto simp: working_env_def failing_env_def output_named_def)
  moreover have "outs ! 1 = (output_named ''b'')\<lparr>Version := [(''performed'', ''b'')]\<rparr>"
    using el [rule_format, of 1]
    by (auto simp: working_env_def failing_env_def output_named_def)
  ultimately have "outs = [(output_named ''a'')\<lparr>Version := [(''performed'', ''a'')]\<rparr>,
                           (output_named ''b'')\<lparr>Version := [(''performed'', ''b'')]\<rparr>]"
    using len by (cases outs; cases "tl outs") auto
  then show ?thesis
    using run by (simp add: working_env_def failing_env_def output_named_def)
qed

theorem PerformOutputs_last_error_wins_witness:
  "distinct [1::nat, 0]
   \<and> failures failing_env ''c'' [output_named ''a'', output_named ''b''] [1, 0]
       = [ErrorString ''second disaster'', ErrorString ''first disaster'']
   \<and> {..<length [output_named ''a'', output_named ''b'']} \<subseteq> set [1::nat, 0]
   \<and> map_option snd
         (PerformOutputs failing_env ''c'' [output_named ''a'', output_named ''b''] [1, 0])
       = Some ([], Some (ErrorString ''first disaster''))"
proof -
  let ?outputs = "[output_named ''a'', output_named ''b'']"
  have d: "distinct [1::nat, 0]" by simp
  have f: "failures failing_env ''c'' ?outputs [1, 0]
             = [ErrorString ''second disaster'', ErrorString ''first disaster'']"
    by (simp add: failures_def task_outcome_def failing_env_def output_named_def)
  have ne: "failures failing_env ''c'' ?outputs [1, 0] \<noteq> []"
    using f by simp
  have all: "{..<length ?outputs} \<subseteq> set [1::nat, 0]"
    by auto
  from PerformOutputs_last_error_wins [OF d ne] all obtain effs where
    "PerformOutputs failing_env ''c'' ?outputs [1, 0]
       = Some (effs, [], Some (last (failures failing_env ''c'' ?outputs [1, 0])))"
    by blast
  then show ?thesis
    using d f all by simp
qed

text \<open>
  The claim as stated fails: both outputs fail, the goroutine of the first output
  completing first. The first error among the failures is \<open>first disaster\<close>, in submission
  order and in completion order alike, and neither error is an abort; the call returns
  \<open>second disaster\<close>.
\<close>

theorem PerformOutputs_first_error_counterexample:
  "failures failing_env ''c'' [output_named ''a'', output_named ''b''] [0, 1]
     = [ErrorString ''first disaster'', ErrorString ''second disaster'']
   \<and> map_option snd
         (PerformOutputs failing_env ''c'' [output_named ''a'', output_named ''b''] [0, 1])
       = Some ([], Some (ErrorString ''second disaster''))
   \<and> map_option snd
         (PerformOutputs failing_env ''c'' [output_named ''a'', output_named ''b''] [0, 1])
       \<noteq> Some ([], Some (ErrorString ''first disaster''))"
  by (simp add: failures_def PerformOutputs_def perform_task_def task_outcome_def
        failing_env_def output_named_def zero_Output_def)

section \<open>Properties of \<open>Attach\<close>\<close>


lemma attach_waits_Some:
  assumes "attach_waits env running = Some container"
  shows "(case running_Container running of
            None \<Rightarrow> client_Lookup env (running_ContainerHandle running)
          | Some c \<Rightarrow> Inr c) = Inr container"
    and "\<exists>process. (case running_Process running of
            None \<Rightarrow> container_Attach env container (running_ProcessID running)
          | Some p \<Rightarrow> Inr p) = Inr process"
  using assms
  by (auto simp: attach_waits_def split: sum.splits option.splits)

text \<open>
  Claim C7, as the code has it. If the abort signal is what the select receives while
  \<open>Attach\<close> waits for the process, then \<open>Attach\<close> calls \<open>Stop(false)\<close> on the build container
  exactly once, closes the emitter, and returns \<open>ErrAborted\<close> as its error with the zero
  succeeded build and no failure. Before the stop it has at most looked the container up
  and attached to the process: no event is emitted, so no \<open>Error\<close> event either.
\<close>

theorem Attach_abort:
  assumes "attach_waits env running = Some container"
  shows "\<exists>pre. Attach env running AbortReceived =
             (pre @ [ContainerStop container False, EmitterClose],
              zero_SucceededBuild, None, Some ErrAborted)
         \<and> set pre \<subseteq> {ClientLookup (running_ContainerHandle running),
                        ContainerAttach container (running_ProcessID running)}"
  using assms
  by (auto simp: attach_waits_def Attach_def waitForRunToEnd_def Let_def
           split: sum.splits option.splits)

text \<open>
  Claim C8, as the code has it. When the select receives the exit status of the process:
  for status 0, \<open>Attach\<close> returns, with no failure and no error, the succeeded build
  carrying the build, the container and the emitter (it has no exit status field, and its
  container handle is left empty); for any other status it returns the zero succeeded
  build, the failure \<open>exit status <n>\<close> and no error.
\<close>

theorem Attach_exit:
  assumes "attach_waits env running = Some container"
  shows "(status = 0 \<longrightarrow>
            snd (Attach env running (StatusReceived status)) =
              (\<lparr>succeeded_Build = running_Build running,
                succeeded_ContainerHandle = [],
                succeeded_Container = Some container,
                succeeded_Emitter =
                  Some (case running_Emitter running of
                          None \<Rightarrow> createEmitter env (EventsCallback (running_Build running))
                        | Some e \<Rightarrow> e)\<rparr>,
               None, None))
       \<and> (status \<noteq> 0 \<longrightarrow>
            snd (Attach env running (StatusReceived status)) =
              (zero_SucceededBuild,
               Some (ErrorString (fmt_Sprintf env ''exit status %d'' [ArgInt status])),
               None))"
  using assms
  by (auto simp: attach_waits_def Attach_def waitForRunToEnd_def Let_def
           split: sum.splits option.splits)

theorem Attach_abort_witness:
  "attach_waits working_env example_running = Some ''some-handle''
   \<and> Attach working_env example_running AbortReceived =
       ([ContainerStop ''some-handle'' False, EmitterClose],
        zero_SucceededBuild, None, Some ErrAborted)"
proof -
  have w: "attach_waits working_env example_running = Some ''some-handle''"
    by (simp add: attach_waits_def example_running_def)
  from Attach_abort [OF w] obtain pre where
    run: "Attach working_env example_running AbortReceived =
            (pre @ [ContainerStop ''some-handle'' False, EmitterClose],
             zero_SucceededBuild, None, Some ErrAborted)"
    by blast
  have "fst (Attach working_env example_running AbortReceived) =
          [ContainerStop ''some-handle'' False, EmitterClose]"
    by (simp add: Attach_def waitForRunToEnd_def example_running_def)
  then have "pre = []"
    using run by simp
  then show ?thesis
    using w run by simp
qed

text \<open>
  The claim as stated fails: on abort the effects of \<open>Attach\<close> are the stop of the container
  and the closing of the emitter; the event \<open>Error{"running failed: build aborted"}\<close> is
  not among them.
\<close>

theorem Attach_abort_event_counterexample:
  "fst (Attach working_env example_running AbortReceived) =
     [ContainerStop ''some-handle'' False, EmitterClose]
   \<and> EmitterEmitEvent (ErrorEvent ''running failed: build aborted'')
       \<notin> set (fst (Attach working_env example_running AbortReceived))"
  by (simp add: Attach_def waitForRunToEnd_def example_running_def)

theorem Attach_exit_witness:
  "attach_waits working_env example_running = Some ''some-handle''
   \<and> snd (Attach working_env example_running (StatusReceived 0)) =
       (\<lparr>succeeded_Build = example_build, succeeded_ContainerHandle = [],
         succeeded_Container = Some ''some-handle'',
         succeeded_Emitter = Some ''some-events-callback''\<rparr>, None, None)
   \<and> snd (Attach working_env example_running (StatusReceived 3)) =
       (zero_SucceededBuild, Some (ErrorString ''exit status %d''), None)"
proof -
  have w: "attach_waits working_env example_running = Some ''some-handle''"
    by (simp add: attach_waits_def example_running_def)
  have "snd (Attach working_env example_running (StatusReceived 0)) =
       (\<lparr>succeeded_Build = example_build, succeeded_ContainerHandle = [],
         succeeded_Container = Some ''some-handle'',
         succeeded_Emitter = Some ''some-events-callback''\<rparr>, None, None)"
    using Attach_exit [OF w, of 0] by (simp add: example_running_def)
  moreover have "snd (Attach working_env example_running (StatusReceived 3)) =
       (zero_SucceededBuild, Some (ErrorString ''exit status %d''), None)"
    using Attach_exit [OF w, of 3] by (simp add: working_env_def failing_env_def)
  ultimately show ?thesis
    using w by simp
qed

text \<open>
  The claim as stated fails for a non-zero status: the process exits with status 2 and
  \<open>Attach\<close> returns the zero succeeded build, which carries neither the container nor the
  emitter, together with a failure.
\<close>

theorem Attach_nonzero_status_counterexample:
  "snd (Attach working_env example_running (StatusReceived 2)) =
     (zero_SucceededBuild, Some (ErrorString ''exit status %d''), None)
   \<and> succeeded_Container (fst (snd (Attach working_env example_running (StatusReceived 2))))
       = None
   \<and> succeeded_Emitter (fst (snd (Attach working_env example_running (StatusReceived 2))))
       = None"
  by (simp add: Attach_def waitForRunToEnd_def example_running_def working_env_def
        failing_env_def zero_SucceededBuild_def)

section \<open>Properties of \<open>Start\<close>\<close>














section \<open>Properties of \<open>Complete\<close>\<close>


lemma receive_results_eq:
  "receive_results n ch m =
     (if n \<le> length ch
      then Some (m ++ map_of (rev (map (\<lambda>output. (Name output, output)) (take n ch))))
      else None)"
proof (induction n arbitrary: ch m)
  case 0
  then show ?case by simp
next
  case (Suc n)
  show ?case
    by (cases ch) (simp_all add: Suc.IH)
qed

lemma implicit_outputs_eq:
  "implicit_outputs inputs m =
     m ++ map_of (rev (map (\<lambda>input. (in_Name input, implicit_output input)) inputs))"
  by (induction inputs arbitrary: m) auto

lemma map_of_rev_distinct:
  "distinct (map fst xs) \<Longrightarrow> map_of (rev xs) = map_of xs"
proof (induction xs)
  case Nil
  then show ?case by simp
next
  case (Cons x xs)
  obtain k v where x: "x = (k, v)" by (cases x)
  have "k \<notin> dom (map_of xs)"
    using Cons.prems x by (simp add: dom_map_of_conv_image_fst)
  then have "[k \<mapsto> v] ++ map_of xs = map_of xs ++ [k \<mapsto> v]"
    by (intro map_add_comm) auto
  then show ?case
    using Cons x by simp
qed

lemma concat_somes:
  "(\<forall>i \<in> set xs. h i \<noteq> None) \<Longrightarrow>
     concat (map (\<lambda>i. case h i of None \<Rightarrow> [] | Some v \<Rightarrow> [v]) xs) = map (\<lambda>i. the (h i)) xs"
  by (induction xs) auto

lemma output_task_sent:
  "fst (snd (output_task env c m i output)) = None \<Longrightarrow>
     snd (snd (output_task env c m i output)) \<noteq> None"
  by (auto simp: output_task_def Let_def split: sum.splits prod.splits)

lemma collect_all_nil:
  assumes "collect_errResults n ch None = Some None"
  shows "n \<le> length ch" and "\<forall>e \<in> set (take n ch). e = None"
proof -
  show n: "n \<le> length ch"
    using assms by (simp add: collect_errResults_eq split: if_splits)
  have "concat (map (\<lambda>e. case e of None \<Rightarrow> [] | Some x \<Rightarrow> [x]) (take n ch)) = []"
    using assms n by (simp add: collect_errResults_eq foldl_overwrite split: if_splits)
  then show "\<forall>e \<in> set (take n ch). e = None"
    by (auto split: option.splits)
qed

lemma full_schedule:
  assumes "distinct sched" and "n \<le> length (filter (\<lambda>i. i < n) sched)"
  shows "mset (filter (\<lambda>i. i < n) sched) = mset [0..<n]"
proof -
  have "{..<n} \<subseteq> set sched"
    using assms by (rule all_completed(1))
  then have "set (filter (\<lambda>i. i < n) sched) = set [0..<n]"
    by auto
  moreover have "distinct (filter (\<lambda>i. i < n) sched)"
    using assms(1) by simp
  ultimately show ?thesis
    by (metis set_eq_iff_mset_eq_distinct distinct_upt)
qed

lemma performOutputs_returns:
  assumes run: "performOutputs env container build sched res_sched keys = Returns (effs, outs, None)"
    and ds: "distinct sched" and dr: "distinct res_sched"
  shows "\<exists>results.
           mset results = mset (performed_outputs env container build)
         \<and> outs = range_values
                    (implicit_outputs (Inputs build) Map.empty
                       ++ map_of (rev (map (\<lambda>output. (Name output, output)) results)))
                    keys"
proof (cases "Outputs build = []")
  case True
  then have "outs = range_values (implicit_outputs (Inputs build) Map.empty) keys"
    using run by (simp add: performOutputs_def Let_def)
  moreover have "performed_outputs env container build = []"
    using True by (simp add: performed_outputs_def results_channel_def split: option.splits)
  ultimately show ?thesis
    by simp
next
  case False
  let ?m = "implicit_outputs (Inputs build) Map.empty"
  let ?n = "length (Outputs build)"
  let ?res = "\<lambda>i. snd (snd (output_task env c0 ?m i (Outputs build ! i)))"
  obtain c where c: "container = Some c"
    using run False by (cases container) (simp_all add: performOutputs_def Let_def)
  let ?err = "\<lambda>i. fst (snd (output_task env c ?m i (Outputs build ! i)))"
  let ?out = "\<lambda>i. snd (snd (output_task env c ?m i (Outputs build ! i)))"
  let ?errs = "errs_channel env c ?m (Outputs build) sched"
  let ?ch = "results_channel env c ?m (Outputs build) res_sched"
  have coll: "collect_errResults ?n ?errs None = Some None"
    using run False c
    by (auto simp: performOutputs_def Let_def split: option.splits)
  obtain m' where recv: "receive_results ?n ?ch ?m = Some m'"
    and outs: "outs = range_values m' keys"
    using run False c coll
    by (auto simp: performOutputs_def Let_def split: option.splits)
  have len_errs: "?n \<le> length (filter (\<lambda>i. i < ?n) sched)"
    using collect_all_nil(1) [OF coll] by (simp add: errs_channel_def)
  have sched_all: "mset (filter (\<lambda>i. i < ?n) sched) = mset [0..<?n]"
    using ds len_errs by (rule full_schedule)
  then have len_sched: "length (filter (\<lambda>i. i < ?n) sched) = ?n"
    by (metis length_upt mset_eq_length minus_nat.diff_0)
  have "\<forall>e \<in> set ?errs. e = None"
    using collect_all_nil(2) [OF coll] len_sched by (simp add: errs_channel_def)
  then have "\<forall>i \<in> set (filter (\<lambda>i. i < ?n) sched). ?err i = None"
    by (simp add: errs_channel_def)
  then have "\<forall>i \<in> set [0..<?n]. ?err i = None"
    using sched_all by (metis mset_eq_setD)
  then have sent: "\<forall>i. i < ?n \<longrightarrow> ?out i \<noteq> None"
    using output_task_sent by auto
  have ch: "?ch = map (\<lambda>i. the (?out i)) (filter (\<lambda>i. i < ?n) res_sched)"
    unfolding results_channel_def by (rule concat_somes) (use sent in auto)
  have len_res: "?n \<le> length (filter (\<lambda>i. i < ?n) res_sched)"
    using recv ch by (simp add: receive_results_eq split: if_splits)
  have res_all: "mset (filter (\<lambda>i. i < ?n) res_sched) = mset [0..<?n]"
    using dr len_res by (rule full_schedule)
  then have "length (filter (\<lambda>i. i < ?n) res_sched) = ?n"
    by (metis length_upt mset_eq_length minus_nat.diff_0)
  then have take: "take ?n ?ch = ?ch"
    using ch by simp
  have m': "m' = ?m ++ map_of (rev (map (\<lambda>output. (Name output, output)) ?ch))"
    using recv take by (simp add: receive_results_eq split: if_splits)
  have perf: "performed_outputs env container build = map (\<lambda>i. the (?out i)) [0..<?n]"
    unfolding performed_outputs_def results_channel_def c
    using concat_somes [of "[0..<?n]" ?out] sent by simp
  have "mset ?ch = mset (performed_outputs env container build)"
    unfolding ch perf using res_all by (metis mset_map)
  then show ?thesis
    using m' outs by blast
qed


lemma range_values_set:
  "dom m \<subseteq> set keys \<Longrightarrow> set (range_values m keys) = ran m"
  by (auto simp: range_values_def ran_def split: option.splits) force

lemma range_values_names:
  "(\<forall>k v. m k = Some v \<longrightarrow> Name v = k) \<Longrightarrow>
     map Name (range_values m keys) = filter (\<lambda>k. k \<in> dom m) keys"
  by (induction keys) (auto simp: range_values_def split: option.splits)

lemma range_values_distinct:
  assumes "distinct keys" and "\<forall>k v. m k = Some v \<longrightarrow> Name v = k"
  shows "distinct (range_values m keys)"
proof -
  have "distinct (map Name (range_values m keys))"
    using assms by (simp add: range_values_names)
  then show ?thesis
    by (simp add: distinct_map)
qed

lemma allOutputs_lookup:
  assumes "distinct (map in_Name inputs)" and "distinct (map Name results)"
  shows "(implicit_outputs inputs Map.empty
            ++ map_of (rev (map (\<lambda>output. (Name output, output)) results))) k = Some v
         \<longleftrightarrow> (v \<in> set results \<and> Name v = k)
           \<or> (k \<notin> Name ` set results
              \<and> (\<exists>input \<in> set inputs. in_Name input = k \<and> v = implicit_output input))"
proof -
  let ?A = "map (\<lambda>input. (in_Name input, implicit_output input)) inputs"
  let ?B = "map (\<lambda>output. (Name output, output)) results"
  have dA: "distinct (map fst ?A)" using assms(1) by (simp add: comp_def)
  have dB: "distinct (map fst ?B)" using assms(2) by (simp add: comp_def)
  have A: "implicit_outputs inputs Map.empty = map_of ?A"
    using map_of_rev_distinct [OF dA] by (simp add: implicit_outputs_eq)
  have B: "map_of (rev ?B) = map_of ?B"
    using dB by (rule map_of_rev_distinct)
  have inA: "map_of ?A k = Some v \<longleftrightarrow>
               (\<exists>input \<in> set inputs. in_Name input = k \<and> v = implicit_output input)"
    using dA by (auto simp: map_of_eq_Some_iff)
  have inB: "map_of ?B k = Some v \<longleftrightarrow> (v \<in> set results \<and> Name v = k)"
    using dB by (auto simp: map_of_eq_Some_iff)
  have noB: "map_of ?B k = None \<longleftrightarrow> k \<notin> Name ` set results"
    by (simp add: map_of_eq_None_iff image_image)
  show ?thesis
    unfolding A B map_add_Some_iff inA inB noB by blast
qed

lemma Name_implicit_output:
  "Name (implicit_output input) = in_Name input"
  by (simp add: implicit_output_def)

lemma Complete_returns:
  assumes "Complete env succeeded sched res_sched keys = Returns (effs, build', None)"
  shows "\<exists>effs0 outs.
           performOutputs env (succeeded_Container succeeded) (succeeded_Build succeeded)
             sched res_sched keys = Returns (effs0, outs, None)
         \<and> effs = effs0 @ [EmitterClose]
         \<and> build' = (succeeded_Build succeeded)\<lparr>Outputs := outs\<rparr>"
  using assms
  by (auto simp: Complete_def split: outcome.splits prod.splits option.splits)

text \<open>
  Claim C1, as the code has it. Take a \<open>Complete\<close> that returns without error, for any
  completion orders of the goroutines and any order in which Go enumerates the keys of
  \<open>allOutputs\<close>. When the inputs of the build have pairwise distinct names and the performed
  outputs have pairwise distinct names, the outputs of the returned build are, without
  repetition, exactly the implicit outputs (one per input) whose name is not the name of a
  performed output, together with the performed outputs.
\<close>

theorem Complete_outputs_union:
  assumes run: "Complete env succeeded sched res_sched keys = Returns (effs, build', None)"
    and ds: "distinct sched" and dr: "distinct res_sched" and dk: "distinct keys"
    and keys: "in_Name ` set (Inputs (succeeded_Build succeeded))
                 \<union> Name ` set (performed_outputs env (succeeded_Container succeeded)
                                  (succeeded_Build succeeded)) \<subseteq> set keys"
    and di: "distinct (map in_Name (Inputs (succeeded_Build succeeded)))"
    and dp: "distinct (map Name (performed_outputs env (succeeded_Container succeeded)
                                   (succeeded_Build succeeded)))"
  shows "set (Outputs build') =
           {output \<in> implicit_output ` set (Inputs (succeeded_Build succeeded)).
              Name output \<notin> Name ` set (performed_outputs env (succeeded_Container succeeded)
                                           (succeeded_Build succeeded))}
           \<union> set (performed_outputs env (succeeded_Container succeeded)
                     (succeeded_Build succeeded))
       \<and> distinct (Outputs build')"
proof -
  let ?build = "succeeded_Build succeeded"
  let ?perf = "performed_outputs env (succeeded_Container succeeded) ?build"
  from Complete_returns [OF run] obtain effs0 outs where
    po: "performOutputs env (succeeded_Container succeeded) ?build sched res_sched keys
           = Returns (effs0, outs, None)"
    and b: "build' = ?build\<lparr>Outputs := outs\<rparr>"
    by blast
  from performOutputs_returns [OF po ds dr] obtain results where
    perm: "mset results = mset ?perf"
    and outs: "outs = range_values
                    (implicit_outputs (Inputs ?build) Map.empty
                       ++ map_of (rev (map (\<lambda>output. (Name output, output)) results)))
                    keys"
    by blast
  let ?M = "implicit_outputs (Inputs ?build) Map.empty
              ++ map_of (rev (map (\<lambda>output. (Name output, output)) results))"
  have set_res: "set results = set ?perf"
    using perm by (rule mset_eq_setD)
  have "mset (map Name results) = mset (map Name ?perf)"
    using perm by (metis mset_map)
  then have dres: "distinct (map Name results)"
    using dp by (metis mset_eq_imp_distinct_iff)
  note look = allOutputs_lookup [OF di dres]
  have inv: "\<forall>k v. ?M k = Some v \<longrightarrow> Name v = k"
    unfolding look by (auto simp: Name_implicit_output)
  have dom: "dom ?M \<subseteq> set keys"
  proof
    fix k assume "k \<in> dom ?M"
    then obtain v where "?M k = Some v" by (meson domD)
    then have "k \<in> in_Name ` set (Inputs ?build) \<union> Name ` set results"
      unfolding look by auto
    then show "k \<in> set keys"
      using keys set_res by auto
  qed
  have "set outs = ran ?M"
    unfolding outs using dom by (rule range_values_set)
  also have "\<dots> = {v. \<exists>k. ?M k = Some v}"
    by (simp add: ran_def)
  also have "\<dots> = {output \<in> implicit_output ` set (Inputs ?build).
                       Name output \<notin> Name ` set results} \<union> set results"
    unfolding look by (auto simp: Name_implicit_output) blast
  finally have "set outs = {output \<in> implicit_output ` set (Inputs ?build).
                       Name output \<notin> Name ` set ?perf} \<union> set ?perf"
    using set_res by simp
  moreover have "distinct outs"
    unfolding outs using dk inv by (rule range_values_distinct)
  ultimately show ?thesis
    using b by simp
qed

lemma returned_Some: "returned r = Some x \<Longrightarrow> r = Returns x"
  by (cases r) (simp_all add: returned_def)

theorem Complete_outputs_union_witness:
  "distinct [1::nat, 0] \<and> distinct [0::nat, 1]
   \<and> distinct [''on-success'', ''second-resource'', ''first-resource'']
   \<and> in_Name ` set (Inputs (succeeded_Build example_succeeded))
         \<union> Name ` set (performed_outputs working_env (succeeded_Container example_succeeded)
                          (succeeded_Build example_succeeded))
       \<subseteq> set [''on-success'', ''second-resource'', ''first-resource'']
   \<and> distinct (map in_Name (Inputs (succeeded_Build example_succeeded)))
   \<and> distinct (map Name (performed_outputs working_env (succeeded_Container example_succeeded)
                             (succeeded_Build example_succeeded)))
   \<and> map_option (\<lambda>r. (Outputs (fst (snd r)), snd (snd r)))
         (returned (Complete working_env example_succeeded [1, 0] [0, 1]
                      [''on-success'', ''second-resource'', ''first-resource'']))
       = Some ([(output_named ''on-success'')
                  \<lparr>On := [OutputConditionSuccess],
                   Version := [(''performed'', ''on-success'')]\<rparr>,
                implicit_output (input_named ''second-resource''),
                (output_named ''first-resource'')
                  \<lparr>On := [OutputConditionFailure],
                   Version := [(''performed'', ''first-resource'')]\<rparr>],
               None)
   \<and> set (Outputs (fst (snd (the (returned
          (Complete working_env example_succeeded [1, 0] [0, 1]
             [''on-success'', ''second-resource'', ''first-resource''])))))) =
         {output \<in> implicit_output ` set (Inputs (succeeded_Build example_succeeded)).
            Name output \<notin> Name ` set (performed_outputs working_env
                                          (succeeded_Container example_succeeded)
                                          (succeeded_Build example_succeeded))}
         \<union> set (performed_outputs working_env (succeeded_Container example_succeeded)
                   (succeeded_Build example_succeeded))"
proof -
  let ?keys = "[''on-success'', ''second-resource'', ''first-resource'']"
  let ?perf = "performed_outputs working_env (succeeded_Container example_succeeded)
                 (succeeded_Build example_succeeded)"
  let ?run = "Complete working_env example_succeeded [1, 0] [0, 1] ?keys"
  have ds: "distinct [1::nat, 0]" and dr: "distinct [0::nat, 1]" and dk: "distinct ?keys"
    by simp_all
  have keys: "in_Name ` set (Inputs (succeeded_Build example_succeeded)) \<union> Name ` set ?perf
                \<subseteq> set ?keys"
    by code_simp
  have di: "distinct (map in_Name (Inputs (succeeded_Build example_succeeded)))"
    by code_simp
  have dp: "distinct (map Name ?perf)"
    by code_simp
  have ev: "map_option (\<lambda>r. (Outputs (fst (snd r)), snd (snd r))) (returned ?run)
       = Some ([(output_named ''on-success'')
                  \<lparr>On := [OutputConditionSuccess],
                   Version := [(''performed'', ''on-success'')]\<rparr>,
                implicit_output (input_named ''second-resource''),
                (output_named ''first-resource'')
                  \<lparr>On := [OutputConditionFailure],
                   Version := [(''performed'', ''first-resource'')]\<rparr>],
               None)"
    by code_simp
  then obtain r where r: "returned ?run = Some r" and none: "snd (snd r) = None"
    by auto
  have run: "?run = Returns (fst r, fst (snd r), None)"
    using returned_Some [OF r] none by (metis prod.collapse)
  from Complete_outputs_union [OF run ds dr dk keys di dp]
  have "set (Outputs (fst (snd r))) =
           {output \<in> implicit_output ` set (Inputs (succeeded_Build example_succeeded)).
              Name output \<notin> Name ` set ?perf} \<union> set ?perf"
    by blast
  then show ?thesis
    using ds dr dk keys di dp ev r by auto
qed

text \<open>
  The claim as stated fails when two performed outputs share a name: both outputs of the
  build are performed, the map keeps one value per name, and the returned build has only
  the output whose result arrived last; the other performed output is not among its
  outputs.
\<close>

theorem Complete_same_name_counterexample:
  "performed_outputs working_env (succeeded_Container same_name_succeeded)
     (succeeded_Build same_name_succeeded)
     = [(output_named ''x'')\<lparr>Version := [(''performed'', ''x'')]\<rparr>,
        (output_named ''x'')\<lparr>Type := ''other-type'', Version := [(''performed'', ''x'')]\<rparr>]
   \<and> map_option (\<lambda>r. (Outputs (fst (snd r)), snd (snd r)))
         (returned (Complete working_env same_name_succeeded [0, 1] [0, 1] [''x'']))
       = Some ([(output_named ''x'')\<lparr>Type := ''other-type'',
                                     Version := [(''performed'', ''x'')]\<rparr>], None)
   \<and> (output_named ''x'')\<lparr>Version := [(''performed'', ''x'')]\<rparr>
       \<notin> set [(output_named ''x'')\<lparr>Type := ''other-type'',
                                     Version := [(''performed'', ''x'')]\<rparr>]"
  by code_simp

section \<open>The outputs that \<open>Complete\<close> performs\<close>


lemma outputs_handed_append:
  "outputs_handed (xs @ ys) = outputs_handed xs @ outputs_handed ys"
  by (simp add: outputs_handed_def)

lemma outputs_handed_concat:
  "outputs_handed (concat xss) = concat (map outputs_handed xss)"
proof (induction xss)
  case Nil
  then show ?case by (simp add: outputs_handed_def)
next
  case (Cons xs xss)
  then show ?case by (simp add: outputs_handed_append)
qed

lemma output_task_handed:
  assumes "fst (snd (output_task env c m i output)) = None"
  shows "outputs_handed (fst (output_task env c m i output)) = [with_input_version m output]"
proof (cases "container_StreamOut env i c ''/tmp/build/src/''")
  case (Inl err)
  then show ?thesis using assms by (simp add: output_task_def Let_def)
next
  case (Inr streamOut)
  note so = this
  let ?o = "with_input_version m output"
  show ?thesis
  proof (cases "tracker_Init env i (Type ?o)
                  \<lparr>origin_Type = OriginTypeOutput, origin_Name = Name ?o\<rparr>")
    case (Inl err)
    then show ?thesis using assms so by (simp add: output_task_def Let_def)
  next
    case (Inr resource)
    obtain computed err where "resource_Out env i resource streamOut ?o = (computed, err)"
      by (cases "resource_Out env i resource streamOut ?o")
    then show ?thesis
      using so Inr by (simp add: output_task_def Let_def outputs_handed_def)
  qed
qed

lemma handed_all:
  "\<forall>i \<in> set xs. fst (snd (output_task env c m i (outputs ! i))) = None \<Longrightarrow>
     concat (map (\<lambda>i. outputs_handed (fst (output_task env c m i (outputs ! i)))) xs) =
       map (\<lambda>i. with_input_version m (outputs ! i)) xs"
  by (induction xs) (simp_all add: output_task_handed)



lemma map_index:
  "map (\<lambda>i. f (xs ! i)) [0..<length xs] = map f xs"
  by (rule nth_equalityI) simp_all


lemma performOutputs_handed:
  assumes run: "performOutputs env container build sched res_sched keys = Returns (effs, outs, None)"
    and ds: "distinct sched"
  shows "mset (outputs_handed effs) =
           mset (map (with_input_version (implicit_outputs (Inputs build) Map.empty))
                     (Outputs build))"
proof (cases "Outputs build = []")
  case True
  then have "effs = []"
    using run by (simp add: performOutputs_def Let_def)
  then show ?thesis
    using True by (simp add: outputs_handed_def)
next
  case False
  let ?m = "implicit_outputs (Inputs build) Map.empty"
  let ?n = "length (Outputs build)"
  let ?f = "\<lambda>i. with_input_version ?m (Outputs build ! i)"
  obtain c where c: "container = Some c"
    using run False by (cases container) (simp_all add: performOutputs_def Let_def)
  let ?err = "\<lambda>i. fst (snd (output_task env c ?m i (Outputs build ! i)))"
  let ?errs = "errs_channel env c ?m (Outputs build) sched"
  let ?sched = "filter (\<lambda>i. i < ?n) sched"
  have coll: "collect_errResults ?n ?errs None = Some None"
    using run False c
    by (auto simp: performOutputs_def Let_def split: option.splits)
  have effs: "effs = task_effects env c ?m (Outputs build) sched"
    using run False c coll
    by (auto simp: performOutputs_def Let_def split: option.splits)
  have len_errs: "?n \<le> length ?sched"
    using collect_all_nil(1) [OF coll] by (simp add: errs_channel_def)
  have sched_all: "mset ?sched = mset [0..<?n]"
    using ds len_errs by (rule full_schedule)
  then have len_sched: "length ?sched = ?n"
    by (metis length_upt mset_eq_length minus_nat.diff_0)
  have "\<forall>e \<in> set ?errs. e = None"
    using collect_all_nil(2) [OF coll] len_sched by (simp add: errs_channel_def)
  then have nil: "\<forall>i \<in> set ?sched. ?err i = None"
    by (simp add: errs_channel_def)
  have "outputs_handed effs =
          concat (map (\<lambda>i. outputs_handed (fst (output_task env c ?m i (Outputs build ! i))))
                      ?sched)"
    unfolding effs task_effects_def by (simp add: outputs_handed_concat comp_def)
  also have "\<dots> = map ?f ?sched"
    using nil by (rule handed_all)
  finally have handed: "outputs_handed effs = map ?f ?sched" .
  have "mset (map ?f ?sched) = mset (map ?f [0..<?n])"
    using sched_all by (metis mset_map)
  then show ?thesis
    unfolding handed map_index .
qed


lemma Attach_not_waiting:
  "attach_waits env running = None \<Longrightarrow>
     snd (snd (snd (Attach env running sel))) \<noteq> None"
  by (auto simp: attach_waits_def Attach_def Let_def split: sum.splits option.splits)

lemma Attach_status_result:
  assumes "attach_waits env running = Some container"
  shows "status \<noteq> 0 \<Longrightarrow> fst (snd (snd (Attach env running (StatusReceived status)))) \<noteq> None"
    and "status = 0 \<Longrightarrow>
           succeeded_Build (fst (snd (Attach env running (StatusReceived status))))
             = running_Build running"
  using assms
  by (auto simp: attach_waits_def Attach_def waitForRunToEnd_def Let_def
           split: sum.splits option.splits)

lemma Attach_handover:
  assumes "Attach env running (StatusReceived status) = (effsA, succeeded, None, None)"
  shows "status = 0" and "succeeded_Build succeeded = running_Build running"
proof -
  have err: "snd (snd (snd (Attach env running (StatusReceived status)))) = None"
    and fail: "fst (snd (snd (Attach env running (StatusReceived status)))) = None"
    and succ: "fst (snd (Attach env running (StatusReceived status))) = succeeded"
    using assms by simp_all
  obtain container where w: "attach_waits env running = Some container"
    using Attach_not_waiting [of env running "StatusReceived status"] err
    by (cases "attach_waits env running") auto
  show s: "status = 0"
    using Attach_status_result(1) [OF w, of status] fail by blast
  show "succeeded_Build succeeded = running_Build running"
    using Attach_status_result(2) [OF w s] succ by simp
qed

lemma with_input_version_frame:
  "Name (with_input_version m output) = Name output"
  "Type (with_input_version m output) = Type output"
  "On (with_input_version m output) = On output"
  "Params (with_input_version m output) = Params output"
  "SourcePath (with_input_version m output) = SourcePath output"
  "Source (with_input_version m output) = Source output"
  "Metadata (with_input_version m output) = Metadata output"
  by (simp_all add: with_input_version_def split: option.splits)

lemma output_task_handed_any:
  "outputs_handed (fst (output_task env c m i output)) =
     (if reaches_Out env c m i output then [with_input_version m output] else [])"
proof (cases "container_StreamOut env i c ''/tmp/build/src/''")
  case (Inl err)
  then show ?thesis
    by (simp add: output_task_def reaches_Out_def Let_def outputs_handed_def)
next
  case (Inr streamOut)
  note so = this
  let ?o = "with_input_version m output"
  show ?thesis
  proof (cases "tracker_Init env i (Type ?o)
                  \<lparr>origin_Type = OriginTypeOutput, origin_Name = Name ?o\<rparr>")
    case (Inl err)
    then show ?thesis
      using so by (simp add: output_task_def reaches_Out_def Let_def outputs_handed_def)
  next
    case (Inr resource)
    obtain computed err where "resource_Out env i resource streamOut ?o = (computed, err)"
      by (cases "resource_Out env i resource streamOut ?o")
    then show ?thesis
      using so Inr by (simp add: output_task_def reaches_Out_def Let_def outputs_handed_def)
  qed
qed

lemma handed_filter:
  "concat (map (\<lambda>i. outputs_handed (fst (output_task env c m i (outputs ! i)))) xs) =
     map (\<lambda>i. with_input_version m (outputs ! i))
         (filter (\<lambda>i. reaches_Out env c m i (outputs ! i)) xs)"
  by (induction xs) (simp_all add: output_task_handed_any)

lemma collect_returns:
  "collect_errResults n ch acc = Some r \<Longrightarrow> n \<le> length ch"
  by (simp add: collect_errResults_eq split: if_splits)

lemma performOutputs_handed_any:
  assumes run: "performOutputs env container build sched res_sched keys = Returns (effs, outs, err)"
    and ds: "distinct sched"
  shows "mset (outputs_handed effs) =
           mset (map (with_input_version (implicit_outputs (Inputs build) Map.empty))
                     (outputs_reaching_Out env container build))"
proof (cases "Outputs build = []")
  case True
  then have "effs = []"
    using run by (simp add: performOutputs_def Let_def)
  moreover have "outputs_reaching_Out env container build = []"
    using True by (simp add: outputs_reaching_Out_def split: option.splits)
  ultimately show ?thesis
    by (simp add: outputs_handed_def)
next
  case False
  let ?m = "implicit_outputs (Inputs build) Map.empty"
  let ?n = "length (Outputs build)"
  let ?f = "\<lambda>i. with_input_version ?m (Outputs build ! i)"
  obtain c where c: "container = Some c"
    using run False by (cases container) (simp_all add: performOutputs_def Let_def)
  let ?P = "\<lambda>i. reaches_Out env c ?m i (Outputs build ! i)"
  let ?errs = "errs_channel env c ?m (Outputs build) sched"
  let ?sched = "filter (\<lambda>i. i < ?n) sched"
  obtain r where coll: "collect_errResults ?n ?errs None = Some r"
    using run False c
    by (cases "collect_errResults ?n ?errs None") (simp_all add: performOutputs_def Let_def)
  have effs: "effs = task_effects env c ?m (Outputs build) sched"
  proof (cases r)
    case None
    then show ?thesis
      using run False c coll
      by (auto simp: performOutputs_def Let_def split: option.splits)
  next
    case (Some outputErr)
    then show ?thesis
      using run False c coll by (simp add: performOutputs_def Let_def)
  qed
  have len_errs: "?n \<le> length ?sched"
    using collect_returns [OF coll] by (simp add: errs_channel_def)
  have sched_all: "mset ?sched = mset [0..<?n]"
    using ds len_errs by (rule full_schedule)
  have "outputs_handed effs =
          concat (map (\<lambda>i. outputs_handed (fst (output_task env c ?m i (Outputs build ! i))))
                      ?sched)"
    unfolding effs task_effects_def by (simp add: outputs_handed_concat comp_def)
  also have "\<dots> = map ?f (filter ?P ?sched)"
    by (rule handed_filter)
  finally have handed: "outputs_handed effs = map ?f (filter ?P ?sched)" .
  have "mset (map ?f (filter ?P ?sched)) = image_mset ?f (filter_mset ?P (mset ?sched))"
    by (simp only: mset_map mset_filter)
  also have "\<dots> = image_mset ?f (filter_mset ?P (mset [0..<?n]))"
    unfolding sched_all ..
  also have "\<dots> = mset (map ?f (filter ?P [0..<?n]))"
    by (simp only: mset_map mset_filter)
  finally have "mset (outputs_handed effs) = mset (map ?f (filter ?P [0..<?n]))"
    unfolding handed .
  then show ?thesis
    unfolding outputs_reaching_Out_def c by (simp add: comp_def)
qed

lemma Complete_returns_any:
  assumes "Complete env succeeded sched res_sched keys = Returns (effs, build', err)"
  shows "\<exists>effs0 outs.
           performOutputs env (succeeded_Container succeeded) (succeeded_Build succeeded)
             sched res_sched keys = Returns (effs0, outs, err)
         \<and> effs = effs0 @ [EmitterClose]"
  using assms
  by (auto simp: Complete_def split: outcome.splits prod.splits option.splits)

text \<open>
  Claim C2, as the code has it. Outputs are performed only for a build whose process exited
  with status 0: \<open>Attach\<close> hands over a succeeded build, with neither failure nor error,
  for no other status. In a \<open>Complete\<close> that returns, with or without an error, the outputs
  handed to \<open>resource.Out\<close> are, up to order, exactly the outputs of the build for which
  \<open>StreamOut\<close> and \<open>tracker.Init\<close> succeed, each with the version of the input of the same
  name when there is one; when \<open>Complete\<close> returns without error they are all of
  \<open>build.Outputs\<close>. No condition is consulted; \<open>with_input_version\<close> changes the version only.
\<close>

theorem Complete_performs_every_output:
  assumes att: "Attach env running (StatusReceived status) = (effsA, succeeded, None, None)"
    and run: "Complete env succeeded sched res_sched keys = Returns (effs, build', err)"
    and ds: "distinct sched"
  shows "status = 0
       \<and> mset (outputs_handed effs) =
           mset (map (with_input_version
                        (implicit_outputs (Inputs (running_Build running)) Map.empty))
                     (outputs_reaching_Out env (succeeded_Container succeeded)
                        (running_Build running)))
       \<and> (err = None \<longrightarrow>
            mset (outputs_handed effs) =
              mset (map (with_input_version
                           (implicit_outputs (Inputs (running_Build running)) Map.empty))
                        (Outputs (running_Build running))))"
proof -
  from Complete_returns_any [OF run] obtain effs0 outs where
    po: "performOutputs env (succeeded_Container succeeded) (succeeded_Build succeeded)
           sched res_sched keys = Returns (effs0, outs, err)"
    and effs: "effs = effs0 @ [EmitterClose]"
    by blast
  have same: "outputs_handed effs = outputs_handed effs0"
    unfolding effs by (simp add: outputs_handed_def)
  have b: "succeeded_Build succeeded = running_Build running" and s: "status = 0"
    using Attach_handover [OF att] by simp_all
  have any: "mset (outputs_handed effs) =
           mset (map (with_input_version
                        (implicit_outputs (Inputs (running_Build running)) Map.empty))
                     (outputs_reaching_Out env (succeeded_Container succeeded)
                        (running_Build running)))"
    using performOutputs_handed_any [OF po ds] same b by simp
  have nil: "mset (outputs_handed effs) =
              mset (map (with_input_version
                           (implicit_outputs (Inputs (running_Build running)) Map.empty))
                        (Outputs (running_Build running)))" if "err = None"
    using performOutputs_handed [OF po [unfolded that] ds] same b by simp
  show ?thesis
    using s any nil by blast
qed

theorem Complete_performs_every_output_witness:
  "snd (snd (Attach working_env example_running_outputs (StatusReceived 0))) = (None, None)
   \<and> distinct [1::nat, 0]
   \<and> map_option (\<lambda>r. (outputs_handed (fst r), snd (snd r)))
         (returned (Complete working_env
            (fst (snd (Attach working_env example_running_outputs (StatusReceived 0))))
            [1, 0] [0, 1] [''on-success'', ''second-resource'', ''first-resource'']))
       = Some ([(output_named ''first-resource'')
                  \<lparr>On := [OutputConditionFailure],
                   Version := [(''ref'', ''first-resource'')]\<rparr>,
                (output_named ''on-success'')\<lparr>On := [OutputConditionSuccess]\<rparr>],
               None)
   \<and> mset (outputs_handed (fst (the (returned (Complete working_env
            (fst (snd (Attach working_env example_running_outputs (StatusReceived 0))))
            [1, 0] [0, 1] [''on-success'', ''second-resource'', ''first-resource''])))))
       = mset (map (with_input_version
                      (implicit_outputs (Inputs (running_Build example_running_outputs))
                         Map.empty))
                   (Outputs (running_Build example_running_outputs)))
   \<and> snd (snd (Attach no_stream_env example_running_outputs (StatusReceived 0))) = (None, None)
   \<and> map_option (\<lambda>r. (outputs_handed (fst r), snd (snd r)))
         (returned (Complete no_stream_env
            (fst (snd (Attach no_stream_env example_running_outputs (StatusReceived 0))))
            [1, 0] [0, 1] [''on-success'', ''second-resource'', ''first-resource'']))
       = Some ([(output_named ''first-resource'')
                  \<lparr>On := [OutputConditionFailure],
                   Version := [(''ref'', ''first-resource'')]\<rparr>],
               Some (ErrorString ''no stream''))
   \<and> mset (outputs_handed (fst (the (returned (Complete no_stream_env
            (fst (snd (Attach no_stream_env example_running_outputs (StatusReceived 0))))
            [1, 0] [0, 1] [''on-success'', ''second-resource'', ''first-resource''])))))
       = mset (map (with_input_version
                      (implicit_outputs (Inputs (running_Build example_running_outputs))
                         Map.empty))
                   (outputs_reaching_Out no_stream_env
                      (succeeded_Container
                         (fst (snd (Attach no_stream_env example_running_outputs
                                      (StatusReceived 0)))))
                      (running_Build example_running_outputs)))"
proof -
  let ?keys = "[''on-success'', ''second-resource'', ''first-resource'']"
  let ?att = "Attach working_env example_running_outputs (StatusReceived 0)"
  let ?run = "Complete working_env (fst (snd ?att)) [1, 0] [0, 1] ?keys"
  let ?att2 = "Attach no_stream_env example_running_outputs (StatusReceived 0)"
  let ?run2 = "Complete no_stream_env (fst (snd ?att2)) [1, 0] [0, 1] ?keys"
  have ds: "distinct [1::nat, 0]"
    by simp
  have a: "snd (snd ?att) = (None, None)"
    by code_simp
  have att: "?att = (fst ?att, fst (snd ?att), None, None)"
    using a by (simp add: prod_eq_iff)
  have ev: "map_option (\<lambda>r. (outputs_handed (fst r), snd (snd r))) (returned ?run)
       = Some ([(output_named ''first-resource'')
                  \<lparr>On := [OutputConditionFailure],
                   Version := [(''ref'', ''first-resource'')]\<rparr>,
                (output_named ''on-success'')\<lparr>On := [OutputConditionSuccess]\<rparr>],
               None)"
    by code_simp
  then obtain r where r: "returned ?run = Some r" and none: "snd (snd r) = None"
    by auto
  have run: "?run = Returns (fst r, fst (snd r), None)"
    using returned_Some [OF r] none by (metis prod.collapse)
  from Complete_performs_every_output [OF att run ds]
  have all: "mset (outputs_handed (fst r)) =
          mset (map (with_input_version
                      (implicit_outputs (Inputs (running_Build example_running_outputs))
                         Map.empty))
                   (Outputs (running_Build example_running_outputs)))"
    by blast
  have a2: "snd (snd ?att2) = (None, None)"
    by code_simp
  have att2: "?att2 = (fst ?att2, fst (snd ?att2), None, None)"
    using a2 by (simp add: prod_eq_iff)
  have ev2: "map_option (\<lambda>r. (outputs_handed (fst r), snd (snd r))) (returned ?run2)
       = Some ([(output_named ''first-resource'')
                  \<lparr>On := [OutputConditionFailure],
                   Version := [(''ref'', ''first-resource'')]\<rparr>],
               Some (ErrorString ''no stream''))"
    by code_simp
  then obtain r2 where r2: "returned ?run2 = Some r2"
    and err2: "snd (snd r2) = Some (ErrorString ''no stream'')"
    by auto
  have run2: "?run2 = Returns (fst r2, fst (snd r2), Some (ErrorString ''no stream''))"
    using returned_Some [OF r2] err2 by (metis prod.collapse)
  from Complete_performs_every_output [OF att2 run2 ds]
  have some: "mset (outputs_handed (fst r2)) =
          mset (map (with_input_version
                      (implicit_outputs (Inputs (running_Build example_running_outputs))
                         Map.empty))
                   (outputs_reaching_Out no_stream_env (succeeded_Container (fst (snd ?att2)))
                      (running_Build example_running_outputs)))"
    by blast
  show ?thesis
    using a ds ev r all a2 ev2 r2 some by auto
qed

text \<open>
  The claim as stated fails: the process exits with status 0, the only output of the build
  is to be performed on failure, and \<open>Complete\<close> hands it to \<open>resource.Out\<close> all the same.
\<close>

theorem Complete_ignores_conditions_counterexample:
  "snd (snd (Attach working_env failure_only_running (StatusReceived 0))) = (None, None)
   \<and> map_option (\<lambda>r. (outputs_handed (fst r), snd (snd r)))
         (returned (Complete working_env
            (fst (snd (Attach working_env failure_only_running (StatusReceived 0))))
            [0] [0] [''on-failure'']))
       = Some ([(output_named ''on-failure'')\<lparr>On := [OutputConditionFailure]\<rparr>], None)
   \<and> OutputConditionSuccess
       \<notin> set (On ((output_named ''on-failure'')\<lparr>On := [OutputConditionFailure]\<rparr>))"
  by code_simp

section \<open>Properties of the emitter\<close>


lemma delivered_steps:
  "delivered event [WriteJSON c event True]"
  "delivered event (WriteJSON c event False # ConnClose c # Sleep 1 # rest) = delivered event rest"
  "delivered event (Dial False # Sleep 1 # rest) = delivered event rest"
  "delivered event (Dial True # rest) = delivered event rest"
  by simp_all

lemma connect_connected:
  "conn e \<noteq> None \<Longrightarrow> connect net fuel e = Some e"
  by (cases fuel) simp_all

lemma connect_Some:
  "connect net fuel e = Some e1 \<Longrightarrow>
     conn e1 \<noteq> None \<and> writes e1 = writes e
   \<and> (\<exists>d. trace e1 = trace e @ d \<and> (\<forall>rest. delivered event (d @ rest) = delivered event rest))"
proof (induction fuel arbitrary: e)
  case 0
  then show ?case by (auto split: if_splits)
next
  case (Suc fuel)
  show ?case
  proof (cases "conn e \<noteq> None")
    case True
    then show ?thesis using Suc.prems by auto
  next
    case False
    note nc = this
    show ?thesis
    proof (cases "dial_ok net (dials e)")
      case True
      then have "e1 = e\<lparr>conn := Some (dials e), dials := Suc (dials e),
                   trace := trace e @ [Dial True]\<rparr>"
        using Suc.prems nc by simp
      then show ?thesis by simp
    next
      case False
      let ?e = "e\<lparr>dials := Suc (dials e), trace := trace e @ [Dial False, Sleep 1]\<rparr>"
      have "connect net fuel ?e = Some e1"
        using Suc.prems nc False by simp
      from Suc.IH [OF this] obtain d where
        "conn e1 \<noteq> None" "writes e1 = writes e"
        "trace e1 = trace e @ [Dial False, Sleep 1] @ d"
        "\<forall>rest. delivered event (d @ rest) = delivered event rest"
        by auto
      then show ?thesis
        by (intro conjI exI [where x = "[Dial False, Sleep 1] @ d"]) simp_all
    qed
  qed
qed

lemma EmitEvent_Some:
  "EmitEvent net fuel e event = Some (e', err) \<Longrightarrow>
     err = None \<and> (\<exists>new. trace e' = trace e @ new \<and> delivered event new)"
proof (induction fuel arbitrary: e)
  case 0
  then show ?case by simp
next
  case (Suc fuel)
  obtain e1 where c1: "connect net fuel e = Some e1"
    using Suc.prems by (cases "connect net fuel e") simp_all
  from connect_Some [OF c1, of event] obtain c d where
    c: "conn e1 = Some c" and w: "writes e1 = writes e"
    and d: "trace e1 = trace e @ d"
    and skip: "\<forall>rest. delivered event (d @ rest) = delivered event rest"
    by auto
  show ?case
  proof (cases "write_ok net (writes e1)")
    case True
    then have e': "e' = e1\<lparr>writes := Suc (writes e1),
                          trace := trace e1 @ [WriteJSON c event True]\<rparr>"
      and err: "err = None"
      using Suc.prems c1 c by simp_all
    have "trace e' = trace e @ (d @ [WriteJSON c event True])"
      using e' d by simp
    moreover have "delivered event (d @ [WriteJSON c event True])"
      using skip by simp
    ultimately show ?thesis
      using err by blast
  next
    case False
    let ?e3 = "e1\<lparr>writes := Suc (writes e1),
                   trace := trace e1 @ [WriteJSON c event False],
                   conn := None,
                   trace := trace e1 @ [WriteJSON c event False] @ [ConnClose c],
                   trace := trace e1 @ [WriteJSON c event False] @ [ConnClose c] @ [Sleep 1]\<rparr>"
    have "EmitEvent net fuel ?e3 event = Some (e', err)"
      using Suc.prems c1 c False by (simp add: close_def Let_def)
    from Suc.IH [OF this] obtain new where
      err: "err = None" and new: "trace e' = trace ?e3 @ new" and del: "delivered event new"
      by auto
    have "trace e' = trace e @ (d @ WriteJSON c event False # ConnClose c # Sleep 1 # new)"
      using new d by simp
    moreover have "delivered event (d @ WriteJSON c event False # ConnClose c # Sleep 1 # new)"
      using skip del by simp
    ultimately show ?thesis
      using err by blast
  qed
qed

lemma EmitEvent_never:
  "\<forall>k. \<not> write_ok net k \<Longrightarrow> EmitEvent net fuel e event = None"
proof (induction fuel arbitrary: e)
  case 0
  then show ?case by simp
next
  case (Suc fuel)
  then show ?case
    by (auto simp: Let_def split: option.splits)
qed

lemma connect_mono:
  "connect net fuel e = Some e1 \<Longrightarrow> connect net (fuel + k) e = Some e1"
proof (induction fuel arbitrary: e)
  case 0
  then show ?case by (auto simp: connect_connected split: if_splits)
next
  case (Suc fuel)
  then show ?case by (auto split: if_splits)
qed

lemma EmitEvent_mono:
  "EmitEvent net fuel e event = Some r \<Longrightarrow> EmitEvent net (fuel + k) e event = Some r"
proof (induction fuel arbitrary: e)
  case 0
  then show ?case by simp
next
  case (Suc fuel)
  obtain e1 where c1: "connect net fuel e = Some e1"
    using Suc.prems by (cases "connect net fuel e") simp_all
  then have c1': "connect net (fuel + k) e = Some e1"
    by (rule connect_mono)
  obtain c where c: "conn e1 = Some c"
    using connect_Some [OF c1] by auto
  show ?case
  proof (cases "write_ok net (writes e1)")
    case True
    then show ?thesis using Suc.prems c1 c1' c by simp
  next
    case False
    let ?e3 = "(close (e1\<lparr>writes := Suc (writes e1),
                             trace := trace e1 @ [WriteJSON c event False]\<rparr>))
                 \<lparr>trace := trace (close (e1\<lparr>writes := Suc (writes e1),
                             trace := trace e1 @ [WriteJSON c event False]\<rparr>)) @ [Sleep 1]\<rparr>"
    have "EmitEvent net fuel ?e3 event = Some r"
      using Suc.prems c1 c False by (simp add: Let_def)
    then have "EmitEvent net (fuel + k) ?e3 event = Some r"
      by (rule Suc.IH)
    then show ?thesis
      using c1' c False by (simp add: Let_def)
  qed
qed

lemma connect_terminates:
  "dial_ok net (dials e + n) \<Longrightarrow> \<exists>fuel e1. connect net fuel e = Some e1"
proof (induction n arbitrary: e)
  case 0
  then have "connect net (Suc 0) e \<noteq> None" by simp
  then show ?case by blast
next
  case (Suc n)
  show ?case
  proof (cases "conn e \<noteq> None \<or> dial_ok net (dials e)")
    case True
    then have "connect net (Suc 0) e \<noteq> None" by auto
    then show ?thesis by blast
  next
    case False
    let ?e = "e\<lparr>dials := Suc (dials e), trace := trace e @ [Dial False, Sleep 1]\<rparr>"
    have "dial_ok net (dials ?e + n)" using Suc.prems by simp
    from Suc.IH [OF this] obtain fuel e1 where "connect net fuel ?e = Some e1" by blast
    then have "connect net (Suc fuel) e = Some e1" using False by simp
    then show ?thesis by blast
  qed
qed

lemma EmitEvent_terminates:
  assumes dial: "\<forall>k. \<exists>j\<ge>k. dial_ok net j"
  shows "write_ok net (writes e + n) \<Longrightarrow> \<exists>fuel r. EmitEvent net fuel e event = Some r"
proof (induction n arbitrary: e)
  case 0
  obtain j where "dials e \<le> j" "dial_ok net j" using dial by blast
  then have "dial_ok net (dials e + (j - dials e))" by simp
  from connect_terminates [OF this] obtain fc e1 where c1: "connect net fc e = Some e1"
    by blast
  obtain c where c: "conn e1 = Some c" and w: "writes e1 = writes e"
    using connect_Some [OF c1] by auto
  have "EmitEvent net (Suc fc) e event \<noteq> None"
    using c1 c w 0 by simp
  then show ?case by blast
next
  case (Suc n)
  obtain j where "dials e \<le> j" "dial_ok net j" using dial by blast
  then have "dial_ok net (dials e + (j - dials e))" by simp
  from connect_terminates [OF this] obtain fc e1 where c1: "connect net fc e = Some e1"
    by blast
  obtain c where c: "conn e1 = Some c" and w: "writes e1 = writes e"
    using connect_Some [OF c1] by auto
  show ?case
  proof (cases "write_ok net (writes e1)")
    case True
    then have "EmitEvent net (Suc fc) e event \<noteq> None"
      using c1 c by simp
    then show ?thesis by blast
  next
    case False
    let ?e3 = "(close (e1\<lparr>writes := Suc (writes e1),
                             trace := trace e1 @ [WriteJSON c event False]\<rparr>))
                 \<lparr>trace := trace (close (e1\<lparr>writes := Suc (writes e1),
                             trace := trace e1 @ [WriteJSON c event False]\<rparr>)) @ [Sleep 1]\<rparr>"
    have "writes ?e3 = Suc (writes e)"
      using w c by (simp add: close_def)
    then have "write_ok net (writes ?e3 + n)"
      using Suc.prems by simp
    from Suc.IH [OF this] obtain fr r where r: "EmitEvent net fr ?e3 event = Some r"
      by blast
    have a: "connect net (fc + fr) e = Some e1"
      using c1 by (rule connect_mono)
    have b: "EmitEvent net (fc + fr) ?e3 event = Some r"
      using EmitEvent_mono [OF r, of fc] by (simp add: add.commute)
    have "EmitEvent net (Suc (fc + fr)) e event = Some r"
      using a b c False by (simp add: Let_def)
    then show ?thesis by blast
  qed
qed


text \<open>
  Claim C3. Whatever the network does and whatever fuel the emitter is given: if \<open>EmitEvent\<close>
  returns, the error it returns is nil and the actions it added end with a successful
  \<open>WriteJSON\<close> of the event, every failed write before it being followed by the closing of
  its connection and a pause of one second (and every failed dial by a pause of one second);
  if no write ever succeeds, \<open>EmitEvent\<close> never returns, so that no failure reaches the
  caller; and if dials succeed again and again and some later write succeeds, then
  \<open>EmitEvent\<close> does return.
\<close>

theorem EmitEvent_delivers:
  "(\<forall>e' err. EmitEvent net fuel e event = Some (e', err) \<longrightarrow>
       err = None \<and> (\<exists>new. trace e' = trace e @ new \<and> delivered event new))
   \<and> ((\<forall>k. \<not> write_ok net k) \<longrightarrow> EmitEvent net fuel e event = None)
   \<and> ((\<forall>k. \<exists>j\<ge>k. dial_ok net j) \<and> (\<exists>j\<ge>writes e. write_ok net j) \<longrightarrow>
        (\<exists>fuel' r. EmitEvent net fuel' e event = Some r))"
proof (intro conjI allI impI)
  fix e' err
  assume "EmitEvent net fuel e event = Some (e', err)"
  from EmitEvent_Some [OF this]
  show "err = None" and "\<exists>new. trace e' = trace e @ new \<and> delivered event new"
    by simp_all
next
  assume "\<forall>k. \<not> write_ok net k"
  then show "EmitEvent net fuel e event = None"
    by (rule EmitEvent_never)
next
  assume a: "(\<forall>k. \<exists>j\<ge>k. dial_ok net j) \<and> (\<exists>j\<ge>writes e. write_ok net j)"
  then obtain j where "writes e \<le> j" "write_ok net j"
    by blast
  then have "write_ok net (writes e + (j - writes e))"
    by simp
  with a show "\<exists>fuel' r. EmitEvent net fuel' e event = Some r"
    using EmitEvent_terminates by blast
qed

theorem EmitEvent_delivers_witness:
  "EmitEvent flaky_network 5 new_emitter example_log =
     Some (\<lparr>conn = Some 1, dials = 2, writes = 2,
            trace = [Dial True, WriteJSON 0 example_log False, ConnClose 0, Sleep 1,
                     Dial True, WriteJSON 1 example_log True]\<rparr>, None)
   \<and> delivered example_log
         [Dial True, WriteJSON 0 example_log False, ConnClose 0, Sleep 1,
          Dial True, WriteJSON 1 example_log True]
   \<and> (\<forall>k. \<exists>j\<ge>k. dial_ok flaky_network j)
   \<and> (\<exists>j\<ge>writes new_emitter. write_ok flaky_network j)
   \<and> (\<exists>fuel' r. EmitEvent flaky_network fuel' new_emitter example_log = Some r)
   \<and> (\<forall>k. \<not> write_ok dead_network k)
   \<and> EmitEvent dead_network 7 new_emitter example_log = None"
proof -
  let ?tr = "[Dial True, WriteJSON 0 example_log False, ConnClose 0, Sleep 1,
              Dial True, WriteJSON 1 example_log True]"
  have run: "EmitEvent flaky_network 5 new_emitter example_log =
     Some (\<lparr>conn = Some 1, dials = 2, writes = 2, trace = ?tr\<rparr>, None)"
    by (simp add: eval_nat_numeral flaky_network_def new_emitter_def close_def Let_def)
  note flaky = EmitEvent_delivers [of flaky_network 5 new_emitter example_log]
  note dead = EmitEvent_delivers [of dead_network 7 new_emitter example_log]
  have "\<exists>new. ?tr = trace new_emitter @ new \<and> delivered example_log new"
    using flaky run by auto
  then have del: "delivered example_log ?tr"
    by (simp add: new_emitter_def)
  have dial: "\<forall>k. \<exists>j\<ge>k. dial_ok flaky_network j"
    by (auto simp: flaky_network_def)
  have wr: "\<exists>j\<ge>writes new_emitter. write_ok flaky_network j"
    by (auto simp: flaky_network_def new_emitter_def intro: exI [where x = 1])
  have ret: "\<exists>fuel' r. EmitEvent flaky_network fuel' new_emitter example_log = Some r"
    using flaky dial wr by blast
  have nowrite: "\<forall>k. \<not> write_ok dead_network k"
    by (simp add: dead_network_def)
  have never: "EmitEvent dead_network 7 new_emitter example_log = None"
    using dead nowrite by blast
  show ?thesis
    using run del dial wr ret nowrite never by blast
qed

section \<open>Properties of the event envelope\<close>


text \<open>
  For the two kinds that \<open>UnmarshalJSON\<close> knows, encoding and then decoding gives the event
  back, provided the JSON library decodes what it encoded.
\<close>

lemma roundtrip_Log_Status:
  assumes ev: "event = LogEvent p og \<or> event = StatusEvent s"
    and pay: "Marshal_event js event = Inr payload"
    and env: "Marshal_envelope js
                \<lparr>envelope_Type = EventType_of event, EventPayload = Some payload\<rparr> = Inr bytes"
    and wire: "Unmarshal_envelope js bytes =
                (\<lparr>envelope_Type = EventType_of event, EventPayload = Some payload\<rparr>, None)"
    and log: "event = LogEvent p og \<longrightarrow> Unmarshal_Log js payload = ((p, og), None)"
    and status: "event = StatusEvent s \<longrightarrow> Unmarshal_Status js payload = (s, None)"
  shows "MarshalJSON js \<lparr>msg_Event = Some event\<rparr> = Returns (Inr bytes)
       \<and> UnmarshalJSON js Sprintf m bytes = Returns (m\<lparr>msg_Event := Some event\<rparr>, None)"
  using assms
  by (auto simp: MarshalJSON_def UnmarshalJSON_def)

text \<open>
  Claim C5, where the code departs from it. Take an event of any kind other than \<open>Log\<close> and
  \<open>Status\<close>, and a JSON library that marshals the event and the envelope and unmarshals the
  encoded envelope to the envelope it was given. Then \<open>MarshalJSON\<close> returns the encoded
  envelope, and \<open>UnmarshalJSON\<close> of these bytes returns the error
  \<open>unknown event type: <tag>\<close> and leaves the message as it was: the event is not decoded.
\<close>

theorem UnmarshalJSON_unknown_kind:
  assumes kind: "EventType_of event \<noteq> EventTypeLog" "EventType_of event \<noteq> EventTypeStatus"
    and pay: "Marshal_event js event = Inr payload"
    and env: "Marshal_envelope js
                \<lparr>envelope_Type = EventType_of event, EventPayload = Some payload\<rparr> = Inr bytes"
    and wire: "Unmarshal_envelope js bytes =
                (\<lparr>envelope_Type = EventType_of event, EventPayload = Some payload\<rparr>, None)"
  shows "MarshalJSON js \<lparr>msg_Event = Some event\<rparr> = Returns (Inr bytes)
       \<and> UnmarshalJSON js Sprintf m bytes =
           Returns (m, Some (ErrorString
                      (Sprintf ''unknown event type: %d'' [ArgEventType (EventType_of event)])))"
proof -
  have "MarshalJSON js \<lparr>msg_Event = Some event\<rparr> = Returns (Inr bytes)"
    using pay env by (simp add: MarshalJSON_def)
  moreover have "UnmarshalJSON js Sprintf m bytes =
           Returns (m, Some (ErrorString
                      (Sprintf ''unknown event type: %d'' [ArgEventType (EventType_of event)])))"
    using kind wire by (cases "EventType_of event") (simp_all add: UnmarshalJSON_def)
  ultimately show ?thesis by simp
qed

theorem UnmarshalJSON_unknown_kind_witness:
  "EventType_of (StartEvent 0) \<noteq> EventTypeLog
   \<and> EventType_of (StartEvent 0) \<noteq> EventTypeStatus
   \<and> Marshal_event toy_json (StartEvent 0) = Inr ''{}''
   \<and> MarshalJSON toy_json \<lparr>msg_Event = Some (StartEvent 0)\<rparr> = Returns (Inr ''T{}'')
   \<and> UnmarshalJSON toy_json (\<lambda>f args. f) \<lparr>msg_Event = None\<rparr> ''T{}'' =
       Returns (\<lparr>msg_Event = None\<rparr>, Some (ErrorString ''unknown event type: %d''))"
proof -
  have k: "EventType_of (StartEvent 0) \<noteq> EventTypeLog"
          "EventType_of (StartEvent 0) \<noteq> EventTypeStatus"
    by simp_all
  have pay: "Marshal_event toy_json (StartEvent 0) = Inr ''{}''"
    by (simp add: toy_json_def)
  have env: "Marshal_envelope toy_json
               \<lparr>envelope_Type = EventType_of (StartEvent 0), EventPayload = Some ''{}''\<rparr>
             = Inr ''T{}''"
    by (simp add: toy_json_def)
  have wire: "Unmarshal_envelope toy_json ''T{}'' =
                (\<lparr>envelope_Type = EventType_of (StartEvent 0), EventPayload = Some ''{}''\<rparr>,
                 None)"
    by (simp add: toy_json_def)
  from UnmarshalJSON_unknown_kind [OF k pay env wire, of "\<lambda>f args. f" "\<lparr>msg_Event = None\<rparr>"]
  show ?thesis
    using k pay by simp
qed

end
